theory Spec2Isabelle
  imports Complex_Main
begin

section \<open>The review-rhythm heatmap of \<open>components/ReviewRhythm.js\<close>\<close>

text \<open>
  The component \<open>ReviewRhythm({ data })\<close> is a function of its props and of one piece of
  React state, \<open>hoveredCell\<close>. It also writes the domain of the module-level
  \<open>colorScale\<close>. The model passes both explicitly: a render takes the props, the hover
  state and the current domain and returns the rendered view and the new domain.

  JavaScript numbers that hold integers are modelled as \<open>int\<close>; the result of
  \<open>parseInt\<close>, which may be \<open>NaN\<close>, as \<open>int option\<close> with \<open>None\<close> for \<open>NaN\<close>. The model
  and the IEEE doubles of the source agree for magnitudes below \<open>2^53\<close>; larger key values
  are outside every range the grid reads in both. Pixel coordinates are \<open>rat\<close>, so that
  \<open>/\<close> is the source's division. A string is the list of its code units, each below 256.
\<close>

subsection \<open>Configuration\<close>

definition daysOfWeek :: "string list" where
  "daysOfWeek = [''Mon'', ''Tue'', ''Wed'', ''Thu'', ''Fri'', ''Sat'', ''Sun'']"

definition hoursOfDay :: "int list" where
  "hoursOfDay = map int [0..<24]"

definition CELL_PADDING :: rat where "CELL_PADDING = 1"
definition CELL_SIZE :: rat where "CELL_SIZE = 18"
definition Y_AXIS_WIDTH :: rat where "Y_AXIS_WIDTH = 40"
definition X_AXIS_HEIGHT :: rat where "X_AXIS_HEIGHT = 30"

subsection \<open>The built-ins the component calls: \<open>parseInt\<close> and number-to-string\<close>

text \<open>
  \<open>parseInt(string)\<close> with no radix: skip leading white space (tab, line feed,
  vertical tab, form feed, carriage return, space, no-break space), read an optional
  sign, strip a \<open>0x\<close>/\<open>0X\<close> prefix (radix 16, otherwise radix 10), read the longest
  prefix of digits of the radix; no digit gives \<open>NaN\<close>.
\<close>

definition isWhiteSpace :: "char \<Rightarrow> bool" where
  "isWhiteSpace c \<longleftrightarrow> (of_char c :: nat) \<in> {9, 10, 11, 12, 13, 32, 160}"

definition digitValue :: "char \<Rightarrow> nat" where
  "digitValue c =
     (let n = (of_char c :: nat) in
      if 48 \<le> n \<and> n \<le> 57 then n - 48
      else if 97 \<le> n \<and> n \<le> 122 then n - 87
      else if 65 \<le> n \<and> n \<le> 90 then n - 55
      else 36)"

definition radixValue :: "nat \<Rightarrow> string \<Rightarrow> nat" where
  "radixValue R Z = foldl (\<lambda>acc c. acc * R + digitValue c) 0 Z"

definition parseInt :: "string \<Rightarrow> int option" where
  "parseInt inputString =
     (let S = dropWhile isWhiteSpace inputString;
          sign = (if S \<noteq> [] \<and> hd S = CHR ''-'' then - 1 else 1 :: int);
          S1 = (if S \<noteq> [] \<and> (hd S = CHR ''+'' \<or> hd S = CHR ''-'') then tl S else S);
          hex = (take 2 S1 = ''0x'' \<or> take 2 S1 = ''0X'');
          R = (if hex then 16 else 10 :: nat);
          S2 = (if hex then drop 2 S1 else S1);
          Z = takeWhile (\<lambda>c. digitValue c < R) S2
      in if Z = [] then None else Some (sign * int (radixValue R Z)))"

text \<open>
  The template literal \<open>`${a}-${b}`\<close> renders each number with \<open>Number::toString\<close>:
  \<open>NaN\<close> for \<open>NaN\<close>, a minus sign and the decimal digits otherwise.
\<close>

definition digitChar :: "nat \<Rightarrow> char" where
  "digitChar n = char_of (48 + n)"

fun showNat :: "nat \<Rightarrow> string" where
  "showNat n = (if n < 10 then [digitChar n] else showNat (n div 10) @ [digitChar (n mod 10)])"

declare showNat.simps [simp del]

definition toString :: "int option \<Rightarrow> string" where
  "toString v =
     (case v of
        None \<Rightarrow> ''NaN''
      | Some i \<Rightarrow> if i < 0 then CHR ''-'' # showNat (nat (- i)) else showNat (nat i))"

definition mapKey :: "int option \<Rightarrow> int option \<Rightarrow> string" where
  "mapKey a b = toString a @ ''-'' @ toString b"

subsection \<open>Data processing\<close>

text \<open>
  \<open>data.data\<close> is an object of objects. It is given as the list of its properties in the
  order \<open>for ... in\<close> enumerates them, each day with the list of its hour properties in
  that order. The keys of an object are distinct.
\<close>

type_synonym hourCounts = "(string \<times> int) list"
type_synonym rhythmData = "(string \<times> hourCounts) list"

record binState =
  processedDataMap :: "string \<rightharpoonup> int"
  maxValue :: int

definition initialBin :: binState where
  "initialBin = \<lparr>processedDataMap = Map.empty, maxValue = 0\<rparr>"

definition processEntry :: "int option \<Rightarrow> binState \<Rightarrow> string \<times> int \<Rightarrow> binState" where
  "processEntry day st e =
     (case e of (hourStr, count) \<Rightarrow>
        let hour = parseInt hourStr
        in \<lparr>processedDataMap =
              (processedDataMap st)(mapKey (map_option (\<lambda>d. d - 1) day) hour \<mapsto> count),
            maxValue = (if count > maxValue st then count else maxValue st)\<rparr>)"

definition processDay :: "binState \<Rightarrow> string \<times> hourCounts \<Rightarrow> binState" where
  "processDay st e =
     (case e of (dayStr, hours) \<Rightarrow>
        let day = parseInt dayStr in foldl (processEntry day) st hours)"

definition processData :: "rhythmData \<Rightarrow> binState" where
  "processData d = foldl processDay initialBin d"

definition domainMax :: "binState \<Rightarrow> int" where
  "domainMax st = max (maxValue st) 1"

subsection \<open>The colour scale\<close>

type_synonym color = "rat \<times> rat \<times> rat"

text \<open>
  Modelled from the spec: \<open>scaleLinear\<close> of the library d3-scale, which the source
  imports and which is not under src/. The definitions \<open>interpolationFraction\<close> and
  \<open>ColorScale\<close> follow section 4.2 of the specification: the fraction is
  \<open>(count - lo) / (hi - lo)\<close> clamped to \<open>[0,1]\<close>, a degenerate domain gives fraction 0,
  and each colour channel is interpolated linearly between the endpoint colours.
\<close>

definition interpolationFraction :: "rat \<times> rat \<Rightarrow> rat \<Rightarrow> rat" where
  "interpolationFraction domain v =
     (case domain of (lo, hi) \<Rightarrow>
        if lo = hi then 0 else max 0 (min 1 ((v - lo) / (hi - lo))))"

definition ColorScale :: "rat \<times> rat \<Rightarrow> color \<times> color \<Rightarrow> rat \<Rightarrow> color" where
  "ColorScale domain rng v =
     (case rng of ((r0, g0, b0), (r1, g1, b1)) \<Rightarrow>
        let t = interpolationFraction domain v
        in (r0 + t * (r1 - r0), g0 + t * (g1 - g0), b0 + t * (b1 - b0)))"

text \<open>
  The source's scale: range \<open>#282828\<close> to \<open>#1DB954\<close>, clamped; its domain is the
  module-level state that each render of the grid overwrites.
\<close>

definition colorRange :: "color \<times> color" where
  "colorRange = ((40, 40, 40), (29, 185, 84))"

type_synonym scaleDomain = "int \<times> int"

definition colorScale :: "scaleDomain \<Rightarrow> int \<Rightarrow> color" where
  "colorScale domain v = ColorScale (of_int (fst domain), of_int (snd domain)) colorRange (of_int v)"

subsection \<open>Hover state and the rendered elements\<close>

record cell =
  day :: int
  hour :: int
  count :: int

record rect =
  rectDay :: int
  rectHour :: int
  rectX :: rat
  rectY :: rat
  rectWidth :: rat
  rectHeight :: rat
  rectFill :: color
  rectHovered :: bool
  rectCount :: int

datatype textAnchor = AnchorStart | AnchorMiddle | AnchorEnd

record axisLabel =
  labelX :: rat
  labelY :: rat
  labelAnchor :: textAnchor
  labelText :: string

record tooltip =
  tipLeft :: rat
  tipTop :: rat
  heading :: string
  reviews :: int

record chart =
  chartWidth :: rat
  chartHeight :: rat
  cells :: "rect list list"
  yLabels :: "axisLabel list"
  xLabels :: "axisLabel option list"
  tooltipBox :: "tooltip option"

datatype view = NotAvailable string | Heatmap chart

text \<open>
  A label carries the \<open>textAnchor\<close> the source gives it: \<open>end\<close> for the day labels,
  \<open>middle\<close> for the hour labels. The groups of the SVG are translated: the cells by \<open>(Y_AXIS_WIDTH, X_AXIS_HEIGHT)\<close>, the
  day labels by \<open>(0, X_AXIS_HEIGHT)\<close>, the hour labels by \<open>(Y_AXIS_WIDTH, 0)\<close>. The
  tooltip is positioned in the enclosing block, whose origin is the origin of the SVG.
\<close>

definition cellsOrigin :: "rat \<times> rat" where
  "cellsOrigin = (Y_AXIS_WIDTH, X_AXIS_HEIGHT)"

definition yLabelsOrigin :: "rat \<times> rat" where
  "yLabelsOrigin = (0, X_AXIS_HEIGHT)"

definition xLabelsOrigin :: "rat \<times> rat" where
  "xLabelsOrigin = (Y_AXIS_WIDTH, 0)"

subsection \<open>Rendering\<close>

text \<open>\<open>v || 0\<close> for the result of \<open>Map.get\<close>: \<open>undefined\<close> and \<open>0\<close> are falsy.\<close>

definition orZero :: "int option \<Rightarrow> int" where
  "orZero v = (case v of None \<Rightarrow> 0 | Some c \<Rightarrow> if c = 0 then 0 else c)"

definition renderCell ::
  "(string \<rightharpoonup> int) \<Rightarrow> scaleDomain \<Rightarrow> cell option \<Rightarrow> int \<Rightarrow> int \<Rightarrow> rect" where
  "renderCell m domain hoveredCell dayIndex h =
     (let c = orZero (m (mapKey (Some dayIndex) (Some h)));
          isHovered = (case hoveredCell of
                         None \<Rightarrow> False
                       | Some hc \<Rightarrow> day hc = dayIndex \<and> hour hc = h)
      in \<lparr>rectDay = dayIndex, rectHour = h,
          rectX = of_int h * (CELL_SIZE + CELL_PADDING),
          rectY = of_int dayIndex * (CELL_SIZE + CELL_PADDING),
          rectWidth = CELL_SIZE, rectHeight = CELL_SIZE,
          rectFill = colorScale domain c,
          rectHovered = isHovered,
          rectCount = c\<rparr>)"

definition renderCells :: "(string \<rightharpoonup> int) \<Rightarrow> scaleDomain \<Rightarrow> cell option \<Rightarrow> rect list list" where
  "renderCells m domain hoveredCell =
     map (\<lambda>dayIndex. map (\<lambda>h. renderCell m domain hoveredCell dayIndex h) hoursOfDay)
       (map int [0..<length daysOfWeek])"

definition renderYLabels :: "axisLabel list" where
  "renderYLabels =
     map (\<lambda>(dayLabel, index).
            \<lparr>labelX = Y_AXIS_WIDTH - 8,
             labelY = of_nat index * (CELL_SIZE + CELL_PADDING) + CELL_SIZE / 2,
             labelAnchor = AnchorEnd,
             labelText = dayLabel\<rparr>)
       (zip daysOfWeek [0..<length daysOfWeek])"

definition renderXLabels :: "axisLabel option list" where
  "renderXLabels =
     map (\<lambda>h. if h mod 3 = 0
               then Some \<lparr>labelX = of_int h * (CELL_SIZE + CELL_PADDING) + CELL_SIZE / 2,
                          labelY = X_AXIS_HEIGHT - 8,
                          labelAnchor = AnchorMiddle,
                          labelText = toString (Some h) @ '':00''\<rparr>
               else None)
       hoursOfDay"

definition dayName :: "int \<Rightarrow> string" where
  "dayName d = (if 0 \<le> d \<and> d < int (length daysOfWeek) then daysOfWeek ! nat d else ''undefined'')"

definition renderTooltip :: "cell option \<Rightarrow> tooltip option" where
  "renderTooltip hoveredCell =
     (case hoveredCell of
        None \<Rightarrow> None
      | Some hc \<Rightarrow>
          let xPos = Y_AXIS_WIDTH + of_int (hour hc) * (CELL_SIZE + CELL_PADDING) + CELL_SIZE / 2;
              yPos = X_AXIS_HEIGHT + of_int (day hc) * (CELL_SIZE + CELL_PADDING) - 10
          in Some \<lparr>tipLeft = xPos, tipTop = yPos,
                   heading = dayName (day hc) @ '', '' @ toString (Some (hour hc)) @ '':00 - ''
                             @ toString (Some (hour hc + 1)) @ '':00'',
                   reviews = count hc\<rparr>)"

subsection \<open>The component\<close>

text \<open>
  The prop \<open>data\<close> is absent (\<open>None\<close>) or an object whose field \<open>data\<close> is absent or the
  object of days.
\<close>

datatype payload = Payload (payloadData: "rhythmData option")

definition notAvailable :: view where
  "notAvailable = NotAvailable ''Review rhythm data is not available.''"

definition ReviewRhythm ::
  "payload option \<Rightarrow> cell option \<Rightarrow> scaleDomain \<Rightarrow> view \<times> scaleDomain" where
  "ReviewRhythm props hoveredCell domain =
     (case props of
        None \<Rightarrow> (notAvailable, domain)
      | Some p \<Rightarrow>
          (case payloadData p of
             None \<Rightarrow> (notAvailable, domain)
           | Some d \<Rightarrow>
               if length (map fst d) = 0 then (notAvailable, domain)
               else
                 let st = processData d;
                     domain' = (0, domainMax st)
                 in (Heatmap
                       \<lparr>chartWidth = Y_AXIS_WIDTH + of_nat (length hoursOfDay) * (CELL_SIZE + CELL_PADDING),
                        chartHeight = X_AXIS_HEIGHT + of_nat (length daysOfWeek) * (CELL_SIZE + CELL_PADDING),
                        cells = renderCells (processedDataMap st) domain' hoveredCell,
                        yLabels = renderYLabels,
                        xLabels = renderXLabels,
                        tooltipBox = renderTooltip hoveredCell\<rparr>,
                     domain')))"

subsection \<open>The mounted component and its events\<close>

text \<open>
  A mounted instance holds its props and its state; the state starts as \<open>null\<close>. The
  handlers of a rendered cell call \<open>setHoveredCell\<close> with the cell's own day, hour and
  count, or with \<open>null\<close>. A parent that passes new props re-renders the instance; its
  state is kept. Every change is followed by a render, which writes the scale's domain.
\<close>

definition onMouseEnter :: "rect \<Rightarrow> cell option" where
  "onMouseEnter r = Some \<lparr>day = rectDay r, hour = rectHour r, count = rectCount r\<rparr>"

definition onMouseLeave :: "rect \<Rightarrow> cell option" where
  "onMouseLeave r = None"

record mounted =
  props :: "payload option"
  hoveredCell :: "cell option"
  domainState :: scaleDomain

definition render :: "mounted \<Rightarrow> view" where
  "render inst = fst (ReviewRhythm (props inst) (hoveredCell inst) (domainState inst))"

definition rerendered :: "mounted \<Rightarrow> mounted" where
  "rerendered inst =
     inst\<lparr>domainState := snd (ReviewRhythm (props inst) (hoveredCell inst) (domainState inst))\<rparr>"

definition mount :: "payload option \<Rightarrow> scaleDomain \<Rightarrow> mounted" where
  "mount p domain = rerendered \<lparr>props = p, hoveredCell = None, domainState = domain\<rparr>"

datatype event = MouseEnter nat nat | MouseLeave nat nat | NewProps "payload option"

text \<open>
  \<open>MouseEnter i j\<close> and \<open>MouseLeave i j\<close> come from the rendered cell in row \<open>i\<close>, column
  \<open>j\<close>; when no such cell is on the screen the event cannot happen, and \<open>rectAt\<close> is
  \<open>None\<close>.
\<close>

definition rectAt :: "view \<Rightarrow> nat \<Rightarrow> nat \<Rightarrow> rect option" where
  "rectAt v i j =
     (case v of
        NotAvailable msg \<Rightarrow> None
      | Heatmap ch \<Rightarrow>
          if i < length (cells ch) \<and> j < length (cells ch ! i) then Some (cells ch ! i ! j) else None)"

fun dispatch :: "mounted \<Rightarrow> event \<Rightarrow> mounted option" where
  "dispatch inst (MouseEnter i j) =
     (case rectAt (render inst) i j of
        None \<Rightarrow> None
      | Some r \<Rightarrow> Some (rerendered (inst\<lparr>hoveredCell := onMouseEnter r\<rparr>)))"
| "dispatch inst (MouseLeave i j) =
     (case rectAt (render inst) i j of
        None \<Rightarrow> None
      | Some r \<Rightarrow> Some (rerendered (inst\<lparr>hoveredCell := onMouseLeave r\<rparr>)))"
| "dispatch inst (NewProps p) = Some (rerendered (inst\<lparr>props := p\<rparr>))"

fun run :: "mounted \<Rightarrow> event list \<Rightarrow> mounted option" where
  "run inst [] = Some inst"
| "run inst (e # es) = (case dispatch inst e of None \<Rightarrow> None | Some inst' \<Rightarrow> run inst' es)"

subsection \<open>Vocabulary of the specification\<close>

text \<open>
  A valid \<open>RawRhythmInput\<close>: the day keys are among \<open>1\<close> to \<open>7\<close>, the hour keys among
  \<open>0\<close> to \<open>23\<close>, written as JSON writes them, no key occurs twice in an object, and the
  counts are not negative.
\<close>

definition dayKeys :: "string list" where
  "dayKeys = map (\<lambda>i. toString (Some (int i))) [1..<8]"

definition hourKeys :: "string list" where
  "hourKeys = map (\<lambda>i. toString (Some (int i))) [0..<24]"

definition validHours :: "hourCounts \<Rightarrow> bool" where
  "validHours hs \<longleftrightarrow>
     distinct (map fst hs) \<and> list_all (\<lambda>(hourStr, c). hourStr \<in> set hourKeys \<and> 0 \<le> c) hs"

definition validInput :: "rhythmData \<Rightarrow> bool" where
  "validInput d \<longleftrightarrow>
     distinct (map fst d) \<and> list_all (\<lambda>(dayStr, hs). dayStr \<in> set dayKeys \<and> validHours hs) d"

text \<open>The count the input holds for day \<open>i\<close> and hour \<open>h\<close>: \<open>data.data[i][h]\<close>, if present.\<close>

definition inputCount :: "rhythmData \<Rightarrow> int \<Rightarrow> int \<Rightarrow> int option" where
  "inputCount d i h =
     (case map_of d (toString (Some i)) of
        None \<Rightarrow> None
      | Some hs \<Rightarrow> map_of hs (toString (Some h)))"

text \<open>
  The entries of an input in the order the two loops visit them, each with the day and
  the hour its keys parse to, and the counts alone.
\<close>

definition dayEntries :: "int option \<Rightarrow> hourCounts \<Rightarrow> ((int option \<times> int option) \<times> int) list" where
  "dayEntries dy hs = map (\<lambda>(hourStr, c). ((dy, parseInt hourStr), c)) hs"

definition entries :: "rhythmData \<Rightarrow> ((int option \<times> int option) \<times> int) list" where
  "entries d = concat (map (\<lambda>(dayStr, hs). dayEntries (parseInt dayStr) hs) d)"

definition allCounts :: "rhythmData \<Rightarrow> int list" where
  "allCounts d = map snd (entries d)"

text \<open>An entry is in range when its day parses into \<open>[1,7]\<close> and its hour into \<open>[0,23]\<close>.\<close>

definition inRange :: "int option \<times> int option \<Rightarrow> bool" where
  "inRange k =
     (case k of
        (Some dy, Some hr) \<Rightarrow> 1 \<le> dy \<and> dy \<le> 7 \<and> 0 \<le> hr \<and> hr \<le> 23
      | _ \<Rightarrow> False)"

text \<open>The grid a render of the input \<open>d\<close> draws, and the count it shows at a row and column.\<close>

definition grid :: "rhythmData \<Rightarrow> cell option \<Rightarrow> rect list list" where
  "grid d hv = renderCells (processedDataMap (processData d)) (0, domainMax (processData d)) hv"

definition shownCounts :: "rhythmData \<Rightarrow> int list list" where
  "shownCounts d = map (map rectCount) (grid d None)"

definition countAt :: "((int option \<times> int option) \<times> int) list \<Rightarrow> int \<Rightarrow> int \<Rightarrow> int" where
  "countAt es i j = (case map_of (rev es) (Some (i + 1), Some j) of None \<Rightarrow> 0 | Some c \<Rightarrow> c)"

text \<open>
  \<open>countAt es i j\<close> is the count of the last entry of \<open>es\<close> for day \<open>i + 1\<close> and hour
  \<open>j\<close>, and 0 when there is none. The entries in range, and their counts:
\<close>

definition inRangeEntries :: "rhythmData \<Rightarrow> ((int option \<times> int option) \<times> int) list" where
  "inRangeEntries d = filter (\<lambda>e. inRange (fst e)) (entries d)"

definition inRangeCounts :: "rhythmData \<Rightarrow> int list" where
  "inRangeCounts d = map snd (inRangeEntries d)"

text \<open>The inputs the guard of the component turns away: no props, no \<open>data\<close>, no day.\<close>

definition noData :: "payload option \<Rightarrow> bool" where
  "noData p =
     (case p of
        None \<Rightarrow> True
      | Some q \<Rightarrow> (case payloadData q of None \<Rightarrow> True | Some d \<Rightarrow> d = []))"

text \<open>A colour lies between two colours when each of its channels does.\<close>

definition between :: "color \<Rightarrow> color \<Rightarrow> color \<Rightarrow> bool" where
  "between C0 C1 c =
     (case (C0, C1, c) of
        ((r0, g0, b0), (r1, g1, b1), (r, g, b)) \<Rightarrow>
          min r0 r1 \<le> r \<and> r \<le> max r0 r1 \<and>
          min g0 g1 \<le> g \<and> g \<le> max g0 g1 \<and>
          min b0 b1 \<le> b \<and> b \<le> max b0 b1)"

text \<open>
  The specification names two failures of binning. The loops of the source have no
  \<open>throw\<close>, no \<open>return\<close> and no \<open>break\<close>: for every input they end with a state.
\<close>

datatype binError = InvalidDayKind | InvalidHourKind

definition binning :: "rhythmData \<Rightarrow> binError + binState" where
  "binning d = Inr (processData d)"

definition dayInRange :: "string \<Rightarrow> bool" where
  "dayInRange dayStr = (case parseInt dayStr of None \<Rightarrow> False | Some v \<Rightarrow> 1 \<le> v \<and> v \<le> 7)"

definition hourInRange :: "string \<Rightarrow> bool" where
  "hourInRange hourStr = (case parseInt hourStr of None \<Rightarrow> False | Some v \<Rightarrow> 0 \<le> v \<and> v \<le> 23)"

definition hasInvalidDay :: "rhythmData \<Rightarrow> bool" where
  "hasInvalidDay d = list_ex (\<lambda>(dayStr, hs). \<not> dayInRange dayStr) d"

definition hasInvalidHour :: "rhythmData \<Rightarrow> bool" where
  "hasInvalidHour d = list_ex (\<lambda>(dayStr, hs). list_ex (\<lambda>(hourStr, c). \<not> hourInRange hourStr) hs) d"

text \<open>The cells a view shows as hovered.\<close>

definition hoveredRects :: "view \<Rightarrow> rect list" where
  "hoveredRects v =
     (case v of
        NotAvailable msg \<Rightarrow> []
      | Heatmap ch \<Rightarrow> filter rectHovered (concat (cells ch)))"

text \<open>
  Positions on the screen: the left edge of column \<open>h\<close> and the top edge of row \<open>d\<close> of
  the cells, and the x of an hour label, each the translation of its group plus the
  coordinate inside the group.
\<close>

definition columnStart :: "int \<Rightarrow> rat" where
  "columnStart h = fst cellsOrigin + of_int h * (CELL_SIZE + CELL_PADDING)"

definition rowTop :: "int \<Rightarrow> rat" where
  "rowTop d = snd cellsOrigin + of_int d * (CELL_SIZE + CELL_PADDING)"

definition hourLabelX :: "axisLabel \<Rightarrow> rat" where
  "hourLabelX l = fst xLabelsOrigin + labelX l"

subsection \<open>The page that shows the component\<close>

text \<open>
  \<open>HomePage\<close>, the only caller, keeps the text of the input, the fetched profile, the
  loading flag and the error in its state. It renders the dashboard only while
  \<open>profileData\<close> is set and nothing is loading, and in it \<open>ReviewRhythm\<close> with
  \<open>profileData.review_rhythm\<close> as its \<open>data\<close> only when that field is truthy. Of the
  profile only \<open>review_rhythm\<close> is modelled; the other widgets are left out.

  React keeps the state of an element that stays in its place from one render to the
  next, discards the state of an element that is no longer rendered, and starts an
  element that is newly rendered from its initial state. The page holds the mounted
  \<open>ReviewRhythm\<close>, if there is one, and the domain of the module-level scale while there
  is none.
\<close>

record profile =
  review_rhythm :: "payload option"

record page =
  userId :: string
  profileData :: "profile option"
  isLoading :: bool
  error :: "string option"
  widget :: "mounted option"
  scaleAtRest :: scaleDomain

definition initialPage :: page where
  "initialPage =
     \<lparr>userId = [], profileData = None, isLoading = False, error = None,
      widget = None, scaleAtRest = (0, 1)\<rparr>"

definition rhythmProps :: "page \<Rightarrow> payload option" where
  "rhythmProps pg =
     (case profileData pg of
        None \<Rightarrow> None
      | Some pd \<Rightarrow> if isLoading pg then None else review_rhythm pd)"

definition reconcile :: "page \<Rightarrow> page" where
  "reconcile pg =
     (case rhythmProps pg of
        None \<Rightarrow>
          (case widget pg of
             None \<Rightarrow> pg
           | Some inst \<Rightarrow> pg\<lparr>widget := None, scaleAtRest := domainState inst\<rparr>)
      | Some p \<Rightarrow>
          (case widget pg of
             None \<Rightarrow> pg\<lparr>widget := Some (mount (Some p) (scaleAtRest pg))\<rparr>
           | Some inst \<Rightarrow> pg\<lparr>widget := Some (rerendered (inst\<lparr>props := Some p\<rparr>))\<rparr>))"

text \<open>
  The events of the page. The text input changes \<open>userId\<close>. A submit runs
  \<open>fetchProfileData\<close>: with a blank \<open>userId\<close> it sets the error and clears the profile;
  otherwise it sets the loading flag, clears the error and the profile, and starts the
  fetch. The submit button is disabled while loading, so no submit happens then. The
  fetch ends while the page is loading, with a profile (\<open>None\<close> for a body that is
  \<open>null\<close>) or with an error; both clear the loading flag. The pointer enters and leaves
  the cells of the mounted component.
\<close>

datatype pageEvent =
    SetUserId string
  | Submit
  | FetchOk "profile option"
  | FetchFail string
  | CellEnter nat nat
  | CellLeave nat nat

fun pageStep :: "page \<Rightarrow> pageEvent \<Rightarrow> page option" where
  "pageStep pg (SetUserId v) = Some (reconcile (pg\<lparr>userId := v\<rparr>))"
| "pageStep pg Submit =
     (if isLoading pg then None
      else if dropWhile isWhiteSpace (userId pg) = []
      then Some (reconcile (pg\<lparr>error := Some ''Please enter a User ID.'', profileData := None\<rparr>))
      else Some (reconcile (pg\<lparr>isLoading := True, error := None, profileData := None\<rparr>)))"
| "pageStep pg (FetchOk d) =
     (if isLoading pg then Some (reconcile (pg\<lparr>profileData := d, isLoading := False\<rparr>))
      else None)"
| "pageStep pg (FetchFail msg) =
     (if isLoading pg
      then Some (reconcile (pg\<lparr>error := Some msg, profileData := None, isLoading := False\<rparr>))
      else None)"
| "pageStep pg (CellEnter i j) =
     (case widget pg of
        None \<Rightarrow> None
      | Some inst \<Rightarrow>
          (case dispatch inst (MouseEnter i j) of
             None \<Rightarrow> None
           | Some inst' \<Rightarrow> Some (pg\<lparr>widget := Some inst'\<rparr>)))"
| "pageStep pg (CellLeave i j) =
     (case widget pg of
        None \<Rightarrow> None
      | Some inst \<Rightarrow>
          (case dispatch inst (MouseLeave i j) of
             None \<Rightarrow> None
           | Some inst' \<Rightarrow> Some (pg\<lparr>widget := Some inst'\<rparr>)))"

fun runPage :: "page \<Rightarrow> pageEvent list \<Rightarrow> page option" where
  "runPage pg [] = Some pg"
| "runPage pg (e # es) = (case pageStep pg e of None \<Rightarrow> None | Some pg' \<Rightarrow> runPage pg' es)"

text \<open>
  The hover state of the page is that of the mounted component, and none when none is
  mounted; the payload on the screen is the \<open>data\<close> the mounted component has.
\<close>

definition hoverState :: "page \<Rightarrow> cell option" where
  "hoverState pg = (case widget pg of None \<Rightarrow> None | Some inst \<Rightarrow> hoveredCell inst)"

definition shownPayload :: "page \<Rightarrow> payload option" where
  "shownPayload pg = (case widget pg of None \<Rightarrow> None | Some inst \<Rightarrow> props inst)"

text \<open>
  The page is consistent when the component is mounted exactly while the page renders
  it, with the \<open>data\<close> the page passes.
\<close>

definition consistent :: "page \<Rightarrow> bool" where
  "consistent pg \<longleftrightarrow> map_option props (widget pg) = map_option Some (rhythmProps pg)"

section \<open>Properties\<close>

subsection \<open>Rendering numbers as strings, and reading them back\<close>

lemma of_char_digitChar: "n < 10 \<Longrightarrow> (of_char (digitChar n) :: nat) = 48 + n"
  by (simp add: digitChar_def)

lemma digitChar_inj: "n < 10 \<Longrightarrow> m < 10 \<Longrightarrow> digitChar n = digitChar m \<Longrightarrow> n = m"
proof -
  assume n: "n < 10" and m: "m < 10" and e: "digitChar n = digitChar m"
  from e have "(of_char (digitChar n) :: nat) = of_char (digitChar m)" by (rule arg_cong)
  then have "48 + n = 48 + m"
    unfolding of_char_digitChar [OF n] of_char_digitChar [OF m] .
  then show "n = m" by (rule add_left_imp_eq)
qed

lemma digitChar_not_minus: "n < 10 \<Longrightarrow> digitChar n \<noteq> CHR ''-''"
  using of_char_digitChar [of n] by auto

lemma digitChar_not_N: "n < 10 \<Longrightarrow> digitChar n \<noteq> CHR ''N''"
  using of_char_digitChar [of n] by auto

lemma showNat_nonempty: "showNat n \<noteq> []"
  by (subst showNat.simps) simp

lemma showNat_last: "last (showNat n) = digitChar (n mod 10)"
  by (subst showNat.simps) simp

lemma showNat_butlast: "butlast (showNat n) = (if n < 10 then [] else showNat (n div 10))"
  by (subst showNat.simps) simp

lemma showNat_inj: "showNat n = showNat m \<Longrightarrow> n = m"
proof (induction n arbitrary: m rule: less_induct)
  case (less n)
  from less.prems have l: "last (showNat n) = last (showNat m)"
    and b: "butlast (showNat n) = butlast (showNat m)" by simp_all
  from l have "digitChar (n mod 10) = digitChar (m mod 10)"
    by (simp only: showNat_last)
  then have md: "n mod 10 = m mod 10"
    by (rule digitChar_inj [rotated 2]) simp_all
  have small: "(n < 10) = (m < 10)"
    using b showNat_nonempty [of "n div 10"] showNat_nonempty [of "m div 10"]
    by (simp only: showNat_butlast split: if_splits) simp_all
  show ?case
  proof (cases "n < 10")
    case True
    with small have "m < 10" by simp
    with True md show ?thesis by simp
  next
    case False
    with small have m10: "\<not> m < 10" by simp
    from b False m10 have e: "showNat (n div 10) = showNat (m div 10)"
      by (simp only: showNat_butlast if_False)
    from False have "n div 10 < n" by simp
    from less.IH [OF this e] have "n div 10 = m div 10" .
    with md show ?thesis by (metis div_mult_mod_eq)
  qed
qed

lemma showNat_digits: "c \<in> set (showNat n) \<Longrightarrow> \<exists>k<10. c = digitChar k"
proof (induction n rule: less_induct)
  case (less n)
  show ?case
  proof (cases "n < 10")
    case True
    then have "showNat n = [digitChar n]" by (subst showNat.simps) simp
    with less.prems True show ?thesis by auto
  next
    case False
    then have lt: "n div 10 < n" by simp
    from False have "showNat n = showNat (n div 10) @ [digitChar (n mod 10)]"
      by (subst showNat.simps) simp
    with less.prems have "c \<in> set (showNat (n div 10)) \<or> c = digitChar (n mod 10)" by auto
    then show ?thesis
    proof
      assume "c \<in> set (showNat (n div 10))"
      with less.IH [OF lt] show ?thesis .
    next
      assume "c = digitChar (n mod 10)"
      moreover have "n mod 10 < 10" by simp
      ultimately show ?thesis by blast
    qed
  qed
qed

lemma showNat_no_minus: "CHR ''-'' \<notin> set (showNat n)"
proof
  assume "CHR ''-'' \<in> set (showNat n)"
  then obtain k where "k < 10" "CHR ''-'' = digitChar k" using showNat_digits by blast
  with digitChar_not_minus [of k] show False by simp
qed

lemma showNat_no_N: "CHR ''N'' \<notin> set (showNat n)"
proof
  assume "CHR ''N'' \<in> set (showNat n)"
  then obtain k where "k < 10" "CHR ''N'' = digitChar k" using showNat_digits by blast
  with digitChar_not_N [of k] show False by simp
qed

lemma split_at_first:
  "c \<notin> set xs \<Longrightarrow> c \<notin> set xs' \<Longrightarrow> xs @ c # ys = xs' @ c # ys' \<Longrightarrow> xs = xs' \<and> ys = ys'"
proof (induction xs arbitrary: xs')
  case Nil
  then show ?case by (cases xs') auto
next
  case (Cons x xs)
  then show ?case by (cases xs') auto
qed


lemma hd_in_prefix: "xs \<noteq> [] \<Longrightarrow> xs @ ys = c # zs \<Longrightarrow> c \<in> set xs"
  by (cases xs) auto

lemma toString_None: "toString None = ''NaN''"
  by (simp add: toString_def)

lemma toString_neg: "i < 0 \<Longrightarrow> toString (Some i) = CHR ''-'' # showNat (nat (- i))"
  by (simp add: toString_def)

lemma toString_nonneg: "0 \<le> i \<Longrightarrow> toString (Some i) = showNat (nat i)"
  by (simp add: toString_def)

lemma toString_inj_nonneg:
  assumes h: "0 \<le> h" and e: "toString b = toString (Some h)"
  shows "b = Some h"
proof (cases b)
  case None
  with e h have "showNat (nat h) = ''NaN''" by (simp add: toString_None toString_nonneg)
  then have "CHR ''N'' \<in> set (showNat (nat h))" by simp
  with showNat_no_N show ?thesis by blast
next
  case (Some i)
  show ?thesis
  proof (cases "i < 0")
    case True
    with e h Some have "showNat (nat h) = CHR ''-'' # showNat (nat (- i))"
      by (simp add: toString_neg toString_nonneg)
    then have "CHR ''-'' \<in> set (showNat (nat h))" by simp
    with showNat_no_minus show ?thesis by blast
  next
    case False
    with e h Some have "showNat (nat i) = showNat (nat h)" by (simp add: toString_nonneg)
    then have "nat i = nat h" by (rule showNat_inj)
    with False h Some show ?thesis by simp
  qed
qed

lemma mapKey_eq_iff:
  assumes d: "0 \<le> d" and h: "0 \<le> h"
  shows "mapKey a b = mapKey (Some d) (Some h) \<longleftrightarrow> a = Some d \<and> b = Some h"
proof
  assume "mapKey a b = mapKey (Some d) (Some h)"
  then have e: "toString a @ CHR ''-'' # toString b = showNat (nat d) @ CHR ''-'' # toString (Some h)"
    using d by (simp add: mapKey_def toString_nonneg)
  have a: "a = Some d"
  proof (cases a)
    case None
    with e have "showNat (nat d) @ CHR ''-'' # toString (Some h) = CHR ''N'' # ''aN'' @ CHR ''-'' # toString b"
      by (simp add: toString_None)
    from hd_in_prefix [OF showNat_nonempty this] showNat_no_N show ?thesis by blast
  next
    case (Some i)
    show ?thesis
    proof (cases "i < 0")
      case True
      with e Some have "showNat (nat d) @ CHR ''-'' # toString (Some h)
          = CHR ''-'' # showNat (nat (- i)) @ CHR ''-'' # toString b"
        by (simp add: toString_neg)
      from hd_in_prefix [OF showNat_nonempty this] showNat_no_minus show ?thesis by blast
    next
      case False
      with e Some have "showNat (nat i) @ CHR ''-'' # toString b
          = showNat (nat d) @ CHR ''-'' # toString (Some h)"
        by (simp add: toString_nonneg)
      from split_at_first [OF showNat_no_minus showNat_no_minus this]
      have "showNat (nat i) = showNat (nat d)" by simp
      then have "nat i = nat d" by (rule showNat_inj)
      with False d Some show ?thesis by simp
    qed
  qed
  with e d have "toString b = toString (Some h)" by (simp add: toString_nonneg)
  with a h show "a = Some d \<and> b = Some h" by (simp add: toString_inj_nonneg)
qed simp

lemma showNat_chars:
  assumes "c \<in> set (showNat n)"
  shows "48 \<le> (of_char c :: nat) \<and> (of_char c :: nat) \<le> 57"
proof -
  from assms obtain k where "k < 10" "c = digitChar k" using showNat_digits by blast
  then show ?thesis by (simp add: of_char_digitChar)
qed

lemma digitValue_digitChar: "k < 10 \<Longrightarrow> digitValue (digitChar k) = k"
  by (simp add: digitValue_def of_char_digitChar Let_def)

lemma showNat_digitValue: "c \<in> set (showNat n) \<Longrightarrow> digitValue c < 10"
  using showNat_digits digitValue_digitChar by fastforce

lemma radixValue_snoc: "radixValue R (Z @ [c]) = radixValue R Z * R + digitValue c"
  by (simp add: radixValue_def)

lemma radixValue_showNat: "radixValue 10 (showNat n) = n"
proof (induction n rule: less_induct)
  case (less n)
  show ?case
  proof (cases "n < 10")
    case True
    then have "showNat n = [digitChar n]" by (subst showNat.simps) simp
    with True show ?thesis by (simp add: radixValue_def digitValue_digitChar)
  next
    case False
    then have s: "showNat n = showNat (n div 10) @ [digitChar (n mod 10)]"
      by (subst showNat.simps) simp
    from False have "n div 10 < n" by simp
    from less.IH [OF this] show ?thesis
      unfolding s radixValue_snoc by (simp add: digitValue_digitChar)
  qed
qed

lemma parseInt_digits:
  assumes ne: "S \<noteq> []" and dig: "\<And>c. c \<in> set S \<Longrightarrow> 48 \<le> (of_char c :: nat) \<and> (of_char c :: nat) \<le> 57"
  shows "parseInt S = Some (int (radixValue 10 S))"
    and "parseInt (CHR ''-'' # S) = Some (- int (radixValue 10 S))"
proof -
  from ne obtain x xs where S: "S = x # xs" by (cases S) auto
  have x: "48 \<le> (of_char x :: nat) \<and> (of_char x :: nat) \<le> 57" using dig S by simp
  have ws: "\<not> isWhiteSpace x" using x by (auto simp: isWhiteSpace_def)
  have sg: "x \<noteq> CHR ''-''" "x \<noteq> CHR ''+''" using x by auto
  have nx: "CHR ''x'' \<notin> set S" "CHR ''X'' \<notin> set S" using dig by fastforce+
  have "set (take 2 S) \<subseteq> set S" by (rule set_take_subset)
  with nx have hex: "take 2 S \<noteq> ''0x''" "take 2 S \<noteq> ''0X''" by auto
  have dv: "digitValue c < 10" if "c \<in> set S" for c
  proof -
    from dig [OF that] have "48 \<le> (of_char c :: nat)" "(of_char c :: nat) \<le> 57" by simp_all
    then show ?thesis by (simp add: digitValue_def Let_def)
  qed
  then have tw: "takeWhile (\<lambda>c. digitValue c < 10) S = S"
    by (simp add: takeWhile_eq_all_conv)
  have d1: "dropWhile isWhiteSpace S = S" using ws S by simp
  have d2: "dropWhile isWhiteSpace (CHR ''-'' # S) = CHR ''-'' # S" by (simp add: isWhiteSpace_def)
  have h: "hd S \<noteq> CHR ''-''" "hd S \<noteq> CHR ''+''" using sg S by simp_all
  show "parseInt S = Some (int (radixValue 10 S))"
    unfolding parseInt_def d1 Let_def by (simp add: hex tw ne h)
  show "parseInt (CHR ''-'' # S) = Some (- int (radixValue 10 S))"
    unfolding parseInt_def d2 Let_def by (simp add: hex tw ne)
qed

lemma parseInt_toString: "parseInt (toString (Some i)) = Some i"
proof (cases "i < 0")
  case True
  then show ?thesis
    using parseInt_digits(2) [OF showNat_nonempty showNat_chars, of "nat (- i)"]
    by (simp add: toString_neg radixValue_showNat)
next
  case False
  then show ?thesis
    using parseInt_digits(1) [OF showNat_nonempty showNat_chars, of "nat i"]
    by (simp add: toString_nonneg radixValue_showNat)
qed

subsection \<open>What the data-processing loop computes\<close>

lemma processEntry_map:
  "processedDataMap (processEntry dy st (hourStr, c)) =
     (processedDataMap st)(mapKey (map_option (\<lambda>d. d - 1) dy) (parseInt hourStr) \<mapsto> c)"
  by (simp add: processEntry_def)

lemma processEntry_max:
  "maxValue (processEntry dy st (hourStr, c)) = max (maxValue st) c"
  by (simp add: processEntry_def max_def)

lemma pred_day_eq: "map_option (\<lambda>d. d - 1) dy = Some dd \<longleftrightarrow> dy = Some (dd + 1)" for dd :: int
  by (cases dy) auto

lemma processEntry_lookup:
  assumes "0 \<le> dd" "0 \<le> h"
  shows "processedDataMap (processEntry dy st (hourStr, c)) (mapKey (Some dd) (Some h)) =
     (if dy = Some (dd + 1) \<and> parseInt hourStr = Some h then Some c
      else processedDataMap st (mapKey (Some dd) (Some h)))"
proof -
  let ?k = "mapKey (map_option (\<lambda>d. d - 1) dy) (parseInt hourStr)"
  have "(?k = mapKey (Some dd) (Some h))
      = (map_option (\<lambda>d. d - 1) dy = Some dd \<and> parseInt hourStr = Some h)"
    by (rule mapKey_eq_iff [OF assms])
  then have k: "(mapKey (Some dd) (Some h) = ?k) = (dy = Some (dd + 1) \<and> parseInt hourStr = Some h)"
    unfolding pred_day_eq by (subst eq_commute)
  show ?thesis
    unfolding processEntry_map fun_upd_apply k by (rule refl)
qed

lemma fold_entries_lookup:
  assumes "0 \<le> dd" "0 \<le> h"
  shows "processedDataMap (foldl (processEntry dy) st hs) (mapKey (Some dd) (Some h)) =
     (case map_of (rev (dayEntries dy hs)) (Some (dd + 1), Some h) of
        None \<Rightarrow> processedDataMap st (mapKey (Some dd) (Some h))
      | Some c \<Rightarrow> Some c)"
proof (induction hs arbitrary: st)
  case Nil
  show ?case by (simp add: dayEntries_def)
next
  case (Cons e hs)
  obtain hourStr c where e: "e = (hourStr, c)" by (cases e)
  show ?case
    by (simp add: e Cons.IH processEntry_lookup [OF assms] dayEntries_def map_add_def
        split: option.splits)
qed

lemma processDay_lookup:
  assumes "0 \<le> dd" "0 \<le> h"
  shows "processedDataMap (processDay st (dayStr, hs)) (mapKey (Some dd) (Some h)) =
     (case map_of (rev (dayEntries (parseInt dayStr) hs)) (Some (dd + 1), Some h) of
        None \<Rightarrow> processedDataMap st (mapKey (Some dd) (Some h))
      | Some c \<Rightarrow> Some c)"
  by (simp add: processDay_def fold_entries_lookup [OF assms])

lemma fold_days_lookup:
  assumes "0 \<le> dd" "0 \<le> h"
  shows "processedDataMap (foldl processDay st d) (mapKey (Some dd) (Some h)) =
     (case map_of (rev (entries d)) (Some (dd + 1), Some h) of
        None \<Rightarrow> processedDataMap st (mapKey (Some dd) (Some h))
      | Some c \<Rightarrow> Some c)"
proof (induction d arbitrary: st)
  case Nil
  show ?case by (simp add: entries_def)
next
  case (Cons e d)
  obtain dayStr hs where e: "e = (dayStr, hs)" by (cases e)
  have ent: "entries ((dayStr, hs) # d) = dayEntries (parseInt dayStr) hs @ entries d"
    by (simp add: entries_def)
  show ?case
    by (simp add: ent e Cons.IH processDay_lookup [OF assms] map_add_def split: option.splits)
qed

lemma processData_lookup:
  assumes "0 \<le> dd" "0 \<le> h"
  shows "processedDataMap (processData d) (mapKey (Some dd) (Some h)) =
     map_of (rev (entries d)) (Some (dd + 1), Some h)"
  by (simp add: processData_def fold_days_lookup [OF assms] initialBin_def split: option.splits)

lemma fold_entries_max:
  "maxValue (foldl (processEntry dy) st hs) = foldl max (maxValue st) (map snd (dayEntries dy hs))"
proof (induction hs arbitrary: st)
  case Nil
  show ?case by (simp add: dayEntries_def)
next
  case (Cons e hs)
  obtain hourStr c where e: "e = (hourStr, c)" by (cases e)
  from Cons.IH [of "processEntry dy st e"] show ?case
    by (simp add: e processEntry_max dayEntries_def)
qed

lemma processDay_max:
  "maxValue (processDay st (dayStr, hs)) = foldl max (maxValue st) (map snd (dayEntries (parseInt dayStr) hs))"
  by (simp add: processDay_def fold_entries_max)

lemma fold_days_max:
  "maxValue (foldl processDay st d) = foldl max (maxValue st) (allCounts d)"
proof (induction d arbitrary: st)
  case Nil
  show ?case by (simp add: allCounts_def entries_def)
next
  case (Cons e d)
  obtain dayStr hs where e: "e = (dayStr, hs)" by (cases e)
  have ent: "allCounts ((dayStr, hs) # d) = map snd (dayEntries (parseInt dayStr) hs) @ allCounts d"
    by (simp add: allCounts_def entries_def)
  from Cons.IH [of "processDay st e"] show ?case
    by (simp add: ent e processDay_max)
qed

lemma foldl_max_Max: "foldl max (a :: int) xs = Max (insert a (set xs))"
proof (induction xs arbitrary: a)
  case Nil
  show ?case by simp
next
  case (Cons x xs)
  have "Max (insert (max a x) (set xs)) = Max (insert a (insert x (set xs)))"
    by (cases "set xs = {}") (simp_all add: max.assoc)
  with Cons.IH [of "max a x"] show ?case by simp
qed

lemma processData_max: "maxValue (processData d) = Max (insert 0 (set (allCounts d)))"
  by (simp add: processData_def fold_days_max initialBin_def foldl_max_Max)

lemma domainMax_Max: "domainMax (processData d) = Max (insert 1 (set (allCounts d)))"
proof -
  have "domainMax (processData d) = max (Max (insert 0 (set (allCounts d)))) 1"
    by (simp add: domainMax_def processData_max)
  also have "\<dots> = Max (insert 1 (set (allCounts d)))"
    by (cases "set (allCounts d) = {}") (simp_all add: max.assoc max.commute)
  finally show ?thesis .
qed

subsection \<open>Valid inputs\<close>

lemma label_parse:
  assumes k: "k = toString (Some (int n))" and t: "0 \<le> t"
  shows "parseInt k = Some t \<longleftrightarrow> k = toString (Some t)"
proof -
  from k have p: "parseInt k = Some (int n)" by (simp add: parseInt_toString)
  show ?thesis
  proof
    assume "parseInt k = Some t"
    with p k show "k = toString (Some t)" by simp
  next
    assume "k = toString (Some t)"
    with k have "toString (Some (int n)) = toString (Some t)" by simp
    from toString_inj_nonneg [OF t this] p show "parseInt k = Some t" by simp
  qed
qed

lemma hourKey_parse:
  assumes "k \<in> set hourKeys" "0 \<le> h"
  shows "parseInt k = Some h \<longleftrightarrow> k = toString (Some h)"
proof -
  from assms(1) obtain n where "k = toString (Some (int n))"
    by (auto simp: hourKeys_def)
  then show ?thesis using assms(2) by (rule label_parse)
qed

lemma dayKey_parse:
  assumes "k \<in> set dayKeys" "0 \<le> i"
  shows "parseInt k = Some i \<longleftrightarrow> k = toString (Some i)"
proof -
  from assms(1) obtain n where "k = toString (Some (int n))"
    by (auto simp: dayKeys_def)
  then show ?thesis using assms(2) by (rule label_parse)
qed

lemma map_of_absent: "k \<notin> fst ` set xs \<Longrightarrow> map_of xs k = None"
  by (simp add: map_of_eq_None_iff)

lemma map_of_rev_Cons:
  "map_of (rev (e # es)) x =
     (case map_of (rev es) x of None \<Rightarrow> (if x = fst e then Some (snd e) else None) | Some v \<Rightarrow> Some v)"
  by (cases e) (simp add: map_add_def split: option.splits)

lemma map_of_rev_append:
  "map_of (rev (es @ fs)) x =
     (case map_of (rev fs) x of None \<Rightarrow> map_of (rev es) x | Some v \<Rightarrow> Some v)"
  by (simp add: map_add_def split: option.splits)

lemma valid_dayEntries:
  assumes h: "0 \<le> h"
  shows "validHours hs \<Longrightarrow>
     map_of (rev (dayEntries dy hs)) (dy', Some h) =
       (if dy = dy' then map_of hs (toString (Some h)) else None)"
proof (induction hs)
  case Nil
  show ?case by (simp add: dayEntries_def)
next
  case (Cons e hs)
  obtain k c where e: "e = (k, c)" by (cases e)
  from Cons.prems e have k: "k \<in> set hourKeys" and nk: "k \<notin> fst ` set hs" and v: "validHours hs"
    by (auto simp: validHours_def)
  have de: "dayEntries dy (e # hs) = ((dy, parseInt k), c) # dayEntries dy hs"
    by (simp add: dayEntries_def e)
  have absent: "k = toString (Some h) \<Longrightarrow> map_of hs (toString (Some h)) = None"
    using nk by (simp add: map_of_absent)
  have rhs: "map_of (e # hs) (toString (Some h))
      = (if k = toString (Some h) then Some c else map_of hs (toString (Some h)))"
    by (auto simp: e)
  have pk: "(Some h = parseInt k) = (k = toString (Some h))"
    using hourKey_parse [OF k h] by auto
  show ?case
    unfolding de map_of_rev_Cons Cons.IH [OF v] rhs fst_conv snd_conv prod.inject pk
    using absent by (auto split: option.splits)
qed

lemma valid_entries:
  assumes i: "0 \<le> i" and h: "0 \<le> h"
  shows "validInput d \<Longrightarrow> map_of (rev (entries d)) (Some i, Some h) = inputCount d i h"
proof (induction d)
  case Nil
  show ?case by (simp add: entries_def inputCount_def)
next
  case (Cons e d)
  obtain k hs where e: "e = (k, hs)" by (cases e)
  from Cons.prems e have k: "k \<in> set dayKeys" and nk: "k \<notin> fst ` set d"
    and vh: "validHours hs" and v: "validInput d"
    by (auto simp: validInput_def)
  have ent: "entries (e # d) = dayEntries (parseInt k) hs @ entries d"
    by (simp add: entries_def e)
  have absent: "k = toString (Some i) \<Longrightarrow> inputCount d i h = None"
    using nk by (simp add: inputCount_def map_of_absent)
  have rhs: "inputCount (e # d) i h
      = (if k = toString (Some i) then map_of hs (toString (Some h)) else inputCount d i h)"
    by (auto simp: e inputCount_def)
  have pk: "(parseInt k = Some i) = (k = toString (Some i))"
    by (rule dayKey_parse [OF k i])
  show ?case
    unfolding ent map_of_rev_append Cons.IH [OF v] rhs valid_dayEntries [OF h vh] pk
    using absent by (auto split: option.splits)
qed

lemma valid_counts_nonneg: "validInput d \<Longrightarrow> inputCount d i h = Some c \<Longrightarrow> 0 \<le> c"
  by (auto simp: validInput_def validHours_def inputCount_def list_all_iff
      split: option.splits dest!: map_of_SomeD)

subsection \<open>The grid\<close>

lemma length_daysOfWeek: "length daysOfWeek = 7"
  by (simp add: daysOfWeek_def)

lemma length_hoursOfDay: "length hoursOfDay = 24"
  by (simp add: hoursOfDay_def)

lemma renderCells_length: "length (renderCells m dm hv) = 7"
  by (simp add: renderCells_def length_daysOfWeek)

lemma renderCells_nth:
  "i < 7 \<Longrightarrow> j < 24 \<Longrightarrow> renderCells m dm hv ! i ! j = renderCell m dm hv (int i) (int j)"
  by (simp add: renderCells_def length_daysOfWeek hoursOfDay_def)

lemma renderCells_row: "i < 7 \<Longrightarrow> length (renderCells m dm hv ! i) = 24"
  by (simp add: renderCells_def length_daysOfWeek hoursOfDay_def)

lemma map_concat_product:
  assumes "\<And>a b. f (g a b) = (a, b)"
  shows "map f (concat (map (\<lambda>a. map (g a) ys) xs)) = List.product xs ys"
  by (induction xs) (simp_all add: assms comp_def)

lemma renderCell_coords: "(\<lambda>r. (rectDay r, rectHour r)) (renderCell m dm hv a b) = (a, b)"
  by (simp add: renderCell_def Let_def)

lemma renderCells_coords:
  "map (\<lambda>r. (rectDay r, rectHour r)) (concat (renderCells m dm hv))
     = List.product (map int [0..<7]) (map int [0..<24])"
  unfolding renderCells_def length_daysOfWeek hoursOfDay_def
  by (rule map_concat_product) (rule renderCell_coords)

lemma grid_pairs_distinct: "distinct (List.product (map int [0..<7]) (map int [0..<24]))"
  by (intro distinct_product) (simp_all add: distinct_map)

lemma renderCell_count:
  "rectCount (renderCell m dm hv a b) = orZero (m (mapKey (Some a) (Some b)))"
  by (simp add: renderCell_def Let_def)

lemma orZero_eq: "orZero v = (case v of None \<Rightarrow> 0 | Some c \<Rightarrow> c)"
  by (simp add: orZero_def split: option.splits)

lemma grid_count:
  assumes "i < 7" "j < 24"
  shows "rectCount (grid d hv ! i ! j)
     = (case map_of (rev (entries d)) (Some (int i + 1), Some (int j)) of None \<Rightarrow> 0 | Some c \<Rightarrow> c)"
  using assms
  by (simp add: grid_def renderCells_nth renderCell_count orZero_eq processData_lookup)

lemma ReviewRhythm_grid:
  "d \<noteq> [] \<Longrightarrow> fst (ReviewRhythm (Some (Payload (Some d))) hv dm)
      = Heatmap \<lparr>chartWidth = Y_AXIS_WIDTH + of_nat (length hoursOfDay) * (CELL_SIZE + CELL_PADDING),
                 chartHeight = X_AXIS_HEIGHT + of_nat (length daysOfWeek) * (CELL_SIZE + CELL_PADDING),
                 cells = grid d hv, yLabels = renderYLabels, xLabels = renderXLabels,
                 tooltipBox = renderTooltip hv\<rparr>"
  by (simp add: ReviewRhythm_def grid_def Let_def)

text \<open>
  Claim C1. For every valid input the data-processing loop and the cell render loop
  produce 7 rows of 24 cells, 168 in all, one for each pair of a day in 0..6 and an hour
  in 0..23 in day-major order and none twice; the cell in row \<open>i\<close>, column \<open>j\<close> shows the
  count the input holds under day \<open>i + 1\<close> and hour \<open>j\<close>, and 0 when the input holds none.
  For a non-empty input this grid is the one the component renders.
\<close>

theorem rhythm_grid_dense:
  assumes "validInput d"
  shows "length (concat (grid d hv)) = 168
    \<and> map (\<lambda>r. (rectDay r, rectHour r)) (concat (grid d hv))
        = List.product (map int [0..<7]) (map int [0..<24])
    \<and> distinct (map (\<lambda>r. (rectDay r, rectHour r)) (concat (grid d hv)))
    \<and> (\<forall>i<7. \<forall>j<24.
          rectDay (grid d hv ! i ! j) = int i \<and> rectHour (grid d hv ! i ! j) = int j
          \<and> rectCount (grid d hv ! i ! j)
              = (case inputCount d (int i + 1) (int j) of None \<Rightarrow> 0 | Some c \<Rightarrow> c))
    \<and> (d \<noteq> [] \<longrightarrow>
          (\<exists>ch. fst (ReviewRhythm (Some (Payload (Some d))) hv dm) = Heatmap ch
                \<and> cells ch = grid d hv))"
proof (intro conjI allI impI)
  have coords: "map (\<lambda>r. (rectDay r, rectHour r)) (concat (grid d hv))
      = List.product (map int [0..<7]) (map int [0..<24])"
    unfolding grid_def by (rule renderCells_coords)
  show "map (\<lambda>r. (rectDay r, rectHour r)) (concat (grid d hv))
      = List.product (map int [0..<7]) (map int [0..<24])" by (rule coords)
  show "distinct (map (\<lambda>r. (rectDay r, rectHour r)) (concat (grid d hv)))"
    unfolding coords by (rule grid_pairs_distinct)
  have "length (map (\<lambda>r. (rectDay r, rectHour r)) (concat (grid d hv))) = 168"
    unfolding coords by (simp add: length_product)
  then show "length (concat (grid d hv)) = 168" by simp
next
  fix i j :: nat
  assume i: "i < 7" and j: "j < 24"
  have r: "grid d hv ! i ! j = renderCell (processedDataMap (processData d)) (0, domainMax (processData d)) hv (int i) (int j)"
    unfolding grid_def using i j by (rule renderCells_nth)
  show "rectDay (grid d hv ! i ! j) = int i"
    using renderCell_coords [of "processedDataMap (processData d)" "(0, domainMax (processData d))" hv "int i" "int j"]
    unfolding r by simp
  show "rectHour (grid d hv ! i ! j) = int j"
    using renderCell_coords [of "processedDataMap (processData d)" "(0, domainMax (processData d))" hv "int i" "int j"]
    unfolding r by simp
  show "rectCount (grid d hv ! i ! j)
      = (case inputCount d (int i + 1) (int j) of None \<Rightarrow> 0 | Some c \<Rightarrow> c)"
    unfolding grid_count [OF i j] using valid_entries [OF _ _ assms, of "int i + 1" "int j"] by simp
next
  assume "d \<noteq> []"
  then show "\<exists>ch. fst (ReviewRhythm (Some (Payload (Some d))) hv dm) = Heatmap ch
                \<and> cells ch = grid d hv"
    by (simp add: ReviewRhythm_grid)
qed

theorem rhythm_grid_dense_witness:
  "validInput [(''1'', [(''9'', 5)])]
   \<and> length (concat (grid [(''1'', [(''9'', 5)])] None)) = 168
   \<and> rectCount (grid [(''1'', [(''9'', 5)])] None ! 0 ! 9) = 5
   \<and> rectCount (grid [(''1'', [(''9'', 5)])] None ! 3 ! 14) = 0
   \<and> (\<exists>ch. fst (ReviewRhythm (Some (Payload (Some [(''1'', [(''9'', 5)])]))) None (0, 1)) = Heatmap ch
          \<and> cells ch = grid [(''1'', [(''9'', 5)])] None)"
proof -
  have v: "validInput [(''1'', [(''9'', 5)])]" by code_simp
  have a: "inputCount [(''1'', [(''9'', 5)])] (int 0 + 1) (int 9) = Some 5" by code_simp
  have b: "inputCount [(''1'', [(''9'', 5)])] (int 3 + 1) (int 14) = None" by code_simp
  from rhythm_grid_dense [OF v, of None "(0, 1)"] a b v show ?thesis by simp
qed

subsection \<open>The guard, the colour domain and the colour scale\<close>

text \<open>
  Claim C2. When the prop \<open>data\<close> is absent or null, when its field \<open>data\<close> is absent or
  null, and when that field is an empty object, the component returns the paragraph
  "Review rhythm data is not available." and nothing else: the view has no grid and no
  tooltip, no cell can be pointed at, and the scale's domain is left as it was. The
  source reaches no statement that can throw on these inputs; the model has no failing
  branch there.
\<close>

theorem missing_data_fallback:
  assumes "noData p"
  shows "ReviewRhythm p hv dm = (NotAvailable ''Review rhythm data is not available.'', dm)
    \<and> (\<forall>ch. fst (ReviewRhythm p hv dm) \<noteq> Heatmap ch)
    \<and> hoveredRects (fst (ReviewRhythm p hv dm)) = []
    \<and> rectAt (fst (ReviewRhythm p hv dm)) i j = None"
proof -
  from assms have "ReviewRhythm p hv dm = (NotAvailable ''Review rhythm data is not available.'', dm)"
    by (auto simp: noData_def ReviewRhythm_def notAvailable_def split: option.splits)
  then show ?thesis by (simp add: hoveredRects_def rectAt_def)
qed

theorem missing_data_fallback_witness:
  "noData None \<and> noData (Some (Payload None)) \<and> noData (Some (Payload (Some [])))
   \<and> ReviewRhythm None None (0, 1) = (NotAvailable ''Review rhythm data is not available.'', (0, 1))
   \<and> ReviewRhythm (Some (Payload None)) None (0, 1)
       = (NotAvailable ''Review rhythm data is not available.'', (0, 1))
   \<and> ReviewRhythm (Some (Payload (Some []))) (Some \<lparr>day = 3, hour = 14, count = 2\<rparr>) (0, 5)
       = (NotAvailable ''Review rhythm data is not available.'', (0, 5))"
proof -
  have a: "noData None" and b: "noData (Some (Payload None))" and c: "noData (Some (Payload (Some [])))"
    by (simp_all add: noData_def)
  from missing_data_fallback [OF a, of None "(0, 1)"]
    missing_data_fallback [OF b, of None "(0, 1)"]
    missing_data_fallback [OF c, of "Some \<lparr>day = 3, hour = 14, count = 2\<rparr>" "(0, 5)"]
    a b c
  show ?thesis by simp
qed

text \<open>
  Claim C3. The upper end of the colour domain is the larger of 1 and the largest count
  of the input, for every input; so it is at least 1, also when every count is 0 and
  when the input has no count at all. A render of a non-empty input writes the domain
  from 0 to that value, and no render, of any props, takes the upper end of the domain
  below 1.
\<close>

theorem domain_max_floor:
  "domainMax (processData d) = Max (insert 1 (set (allCounts d)))
   \<and> 1 \<le> domainMax (processData d)
   \<and> (d \<noteq> [] \<longrightarrow> snd (ReviewRhythm (Some (Payload (Some d))) hv dm) = (0, domainMax (processData d)))
   \<and> (1 \<le> snd dm \<longrightarrow> 1 \<le> snd (snd (ReviewRhythm p hv dm)))"
proof (intro conjI impI)
  assume "1 \<le> snd dm"
  then show "1 \<le> snd (snd (ReviewRhythm p hv dm))"
    by (simp add: ReviewRhythm_def Let_def domainMax_def split: option.splits)
next
  show "domainMax (processData d) = Max (insert 1 (set (allCounts d)))"
    by (rule domainMax_Max)
  show "1 \<le> domainMax (processData d)" by (simp add: domainMax_def)
  assume "d \<noteq> []"
  then show "snd (ReviewRhythm (Some (Payload (Some d))) hv dm) = (0, domainMax (processData d))"
    by (simp add: ReviewRhythm_def Let_def)
qed

theorem domain_max_floor_witness:
  "domainMax (processData [(''1'', [(''9'', 0)])]) = 1
   \<and> domainMax (processData [(''1'', [])]) = 1
   \<and> snd (ReviewRhythm (Some (Payload (Some [(''1'', [(''9'', 5)])]))) None (0, 1)) = (0, 5)
   \<and> 1 \<le> snd (snd (ReviewRhythm None None (0, 1)))"
proof -
  have a: "allCounts [(''1'', [(''9'', 0)])] = [0]"
    and b: "allCounts [(''1'', [])] = []"
    and c: "allCounts [(''1'', [(''9'', 5)])] = [5]"
    by (simp_all add: allCounts_def entries_def dayEntries_def)
  from domain_max_floor [of "[(''1'', [(''9'', 0)])]" None "(0, 1)" None]
    domain_max_floor [of "[(''1'', [])]" None "(0, 1)" None]
    domain_max_floor [of "[(''1'', [(''9'', 5)])]" None "(0, 1)" None]
  show ?thesis unfolding a b c by simp
qed

lemma fraction_bounds:
  "0 \<le> interpolationFraction dm v \<and> interpolationFraction dm v \<le> 1"
  by (cases dm) (simp add: interpolationFraction_def)

lemma channel_between:
  fixes a b t :: rat
  assumes "0 \<le> t" "t \<le> 1"
  shows "min a b \<le> a + t * (b - a) \<and> a + t * (b - a) \<le> max a b"
proof -
  define p where "p = t * (b - a)"
  show ?thesis
  proof (cases "a \<le> b")
    case True
    then have d: "0 \<le> b - a" by simp
    from assms(1) d have "0 \<le> p" unfolding p_def by (rule mult_nonneg_nonneg)
    moreover from mult_right_mono [OF assms(2) d] have "p \<le> b - a"
      unfolding p_def by (simp only: mult_1)
    ultimately show ?thesis unfolding p_def [symmetric] using True by linarith
  next
    case False
    then have d: "b - a \<le> 0" by simp
    from assms(1) d have "p \<le> 0" unfolding p_def by (rule mult_nonneg_nonpos)
    moreover from mult_right_mono_neg [OF assms(2) d] have "b - a \<le> p"
      unfolding p_def by (simp only: mult_1)
    ultimately show ?thesis unfolding p_def [symmetric] using False by linarith
  qed
qed

text \<open>
  Claim C4. For every domain, every pair of endpoint colours and every value, inside
  the domain or not, the interpolation fraction of the colour scale lies in \<open>[0,1]\<close> and
  the colour returned lies between the two endpoint colours, channel by channel; so
  does every fill of the source's scale, between \<open>#282828\<close> and \<open>#1DB954\<close>.
\<close>

theorem color_scale_clamped:
  "0 \<le> interpolationFraction dm v \<and> interpolationFraction dm v \<le> 1
   \<and> between C0 C1 (ColorScale dm (C0, C1) v)
   \<and> between (fst colorRange) (snd colorRange) (colorScale idm c)"
proof -
  note fb = fraction_bounds
  have gen: "between A B (ColorScale e (A, B) w)" for A B e w
  proof -
    obtain r0 g0 b0 where A: "A = (r0, g0, b0)" by (cases A)
    obtain r1 g1 b1 where B: "B = (r1, g1, b1)" by (cases B)
    from fb [of e w] have t: "0 \<le> interpolationFraction e w" "interpolationFraction e w \<le> 1"
      by simp_all
    show ?thesis
      unfolding A B between_def ColorScale_def Let_def
      using channel_between [OF t, of r0 r1] channel_between [OF t, of g0 g1]
        channel_between [OF t, of b0 b1]
      by simp
  qed
  have "between (fst colorRange) (snd colorRange)
      (ColorScale (of_int (fst idm), of_int (snd idm)) (fst colorRange, snd colorRange) (of_int c))"
    by (rule gen)
  then have "between (fst colorRange) (snd colorRange) (colorScale idm c)"
    by (simp add: colorScale_def)
  with fb [of dm v] gen [of C0 C1 dm v] show ?thesis by simp
qed

theorem color_scale_clamped_witness:
  "interpolationFraction (0, 5) 12 = 1 \<and> interpolationFraction (0, 5) (- 3) = 0
   \<and> colorScale (0, 5) 12 = (29, 185, 84) \<and> colorScale (0, 5) (- 3) = (40, 40, 40)
   \<and> between (40, 40, 40) (29, 185, 84) (colorScale (0, 5) 12)
   \<and> between (40, 40, 40) (29, 185, 84) (colorScale (0, 5) 2)"
proof -
  have e: "interpolationFraction (0, 5) 12 = 1" "interpolationFraction (0, 5) (- 3) = 0"
    by (simp_all add: interpolationFraction_def)
  have f: "colorScale (0, 5) 12 = (29, 185, 84)" "colorScale (0, 5) (- 3) = (40, 40, 40)"
    by (simp_all add: colorScale_def ColorScale_def colorRange_def interpolationFraction_def)
  from color_scale_clamped [of "(0, 5)" 12 "(40, 40, 40)" "(29, 185, 84)" "(0, 5)" 12]
    color_scale_clamped [of "(0, 5)" 12 "(40, 40, 40)" "(29, 185, 84)" "(0, 5)" 2]
  have "between (40, 40, 40) (29, 185, 84) (colorScale (0, 5) 12)"
    "between (40, 40, 40) (29, 185, 84) (colorScale (0, 5) 2)"
    by (simp_all add: colorRange_def)
  with e f show ?thesis by simp
qed

subsection \<open>The tooltip and the hour labels\<close>

lemma rect_position:
  "fst cellsOrigin + rectX (renderCell m dm hv a b) = columnStart b
   \<and> snd cellsOrigin + rectY (renderCell m dm hv a b) = rowTop a
   \<and> rectWidth (renderCell m dm hv a b) = CELL_SIZE"
  by (simp add: renderCell_def Let_def columnStart_def rowTop_def)

text \<open>
  Claim C8. With no hovered cell the tooltip is not rendered. With a hovered cell the
  tooltip is rendered, its anchor's x is \<open>Y_AXIS_WIDTH + hour * (CELL_SIZE +
  CELL_PADDING) + CELL_SIZE / 2\<close>, the horizontal centre of the hovered cell on the screen,
  and its y is strictly less than \<open>X_AXIS_HEIGHT + day * (CELL_SIZE + CELL_PADDING)\<close>,
  the top edge of that cell on the screen (10 above it).
\<close>

theorem tooltip_anchor:
  "renderTooltip None = None
   \<and> (\<exists>t. renderTooltip (Some hc) = Some t
         \<and> tipLeft t = Y_AXIS_WIDTH + of_int (hour hc) * (CELL_SIZE + CELL_PADDING) + CELL_SIZE / 2
         \<and> tipLeft t = fst cellsOrigin + rectX (renderCell m dm hv (day hc) (hour hc))
                         + rectWidth (renderCell m dm hv (day hc) (hour hc)) / 2
         \<and> tipTop t < X_AXIS_HEIGHT + of_int (day hc) * (CELL_SIZE + CELL_PADDING)
         \<and> tipTop t = snd cellsOrigin + rectY (renderCell m dm hv (day hc) (hour hc)) - 10
         \<and> reviews t = count hc)"
  by (simp add: renderTooltip_def Let_def renderCell_def cellsOrigin_def)

theorem tooltip_anchor_witness:
  "renderTooltip (Some \<lparr>day = 3, hour = 14, count = 2\<rparr>)
     = Some \<lparr>tipLeft = 315, tipTop = 77, heading = ''Thu, 14:00 - 15:00'', reviews = 2\<rparr>
   \<and> columnStart 14 = 306 \<and> rowTop 3 = 87"
proof -
  have "heading (the (renderTooltip (Some \<lparr>day = 3, hour = 14, count = 2\<rparr>))) = ''Thu, 14:00 - 15:00''"
    by code_simp
  moreover have "columnStart 14 = 306" "rowTop 3 = 87"
    by (simp_all add: columnStart_def rowTop_def cellsOrigin_def CELL_SIZE_def CELL_PADDING_def
        Y_AXIS_WIDTH_def X_AXIS_HEIGHT_def)
  moreover from tooltip_anchor [of "\<lparr>day = 3, hour = 14, count = 2\<rparr>" Map.empty "(0, 1)" None]
  obtain t where "renderTooltip (Some \<lparr>day = 3, hour = 14, count = 2\<rparr>) = Some t"
    "tipLeft t = 315" "tipTop t = 77" "reviews t = 2"
    by (auto simp: CELL_SIZE_def CELL_PADDING_def Y_AXIS_WIDTH_def X_AXIS_HEIGHT_def
        cellsOrigin_def renderCell_def Let_def)
  ultimately show ?thesis by (cases t) simp
qed

lemma renderXLabels_nth:
  "j < 24 \<Longrightarrow> renderXLabels ! j =
     (if int j mod 3 = 0
      then Some \<lparr>labelX = of_int (int j) * (CELL_SIZE + CELL_PADDING) + CELL_SIZE / 2,
                 labelY = X_AXIS_HEIGHT - 8,
                 labelAnchor = AnchorMiddle,
                 labelText = toString (Some (int j)) @ '':00''\<rparr>
      else None)"
  by (simp add: renderXLabels_def hoursOfDay_def)

text \<open>
  Claim C9, as the specification states it, fails: the label of hour 0 is at x 49 on the
  screen and the first column starts at 40.
\<close>

theorem hour_label_start_counterexample:
  "map_option hourLabelX (renderXLabels ! 0) = Some 49 \<and> columnStart 0 = 40
   \<and> map_option hourLabelX (renderXLabels ! 0) \<noteq> Some (columnStart 0)"
  by (simp add: renderXLabels_nth hourLabelX_def columnStart_def xLabelsOrigin_def cellsOrigin_def
      CELL_SIZE_def CELL_PADDING_def Y_AXIS_WIDTH_def)

text \<open>
  Claim C9, amended. The hour axis has a label exactly for the hours \<open>h\<close> in 0..23 with
  \<open>h mod 3 = 0\<close>; the label of hour \<open>h\<close> reads \<open>h:00\<close>, its text-anchor is middle and
  its x is the horizontal centre of column \<open>h\<close>, \<open>Y_AXIS_WIDTH + h * (CELL_SIZE +
  CELL_PADDING) + CELL_SIZE / 2\<close>, with the layout constants of the cells.
\<close>

theorem hour_labels_centered:
  "length renderXLabels = 24
   \<and> (\<forall>j<24.
        (j mod 3 \<noteq> 0 \<longrightarrow> renderXLabels ! j = None)
        \<and> (j mod 3 = 0 \<longrightarrow>
             (\<exists>l. renderXLabels ! j = Some l
                  \<and> hourLabelX l = columnStart (int j) + CELL_SIZE / 2
                  \<and> hourLabelX l = fst cellsOrigin + rectX (renderCell m dm hv i (int j))
                                     + rectWidth (renderCell m dm hv i (int j)) / 2
                  \<and> hourLabelX l = Y_AXIS_WIDTH + of_nat j * (CELL_SIZE + CELL_PADDING) + CELL_SIZE / 2
                  \<and> labelAnchor l = AnchorMiddle
                  \<and> labelText l = toString (Some (int j)) @ '':00'')))"
proof (intro conjI allI impI)
  show "length renderXLabels = 24" by (simp add: renderXLabels_def hoursOfDay_def)
next
  fix j :: nat
  assume j: "j < 24" and m: "j mod 3 \<noteq> 0"
  from m have "int j mod 3 \<noteq> 0" by presburger
  with j show "renderXLabels ! j = None" by (simp add: renderXLabels_nth)
next
  fix j :: nat
  assume j: "j < 24" and m: "j mod 3 = 0"
  from m have "int j mod 3 = 0" by presburger
  with j show "\<exists>l. renderXLabels ! j = Some l
                  \<and> hourLabelX l = columnStart (int j) + CELL_SIZE / 2
                  \<and> hourLabelX l = fst cellsOrigin + rectX (renderCell m dm hv i (int j))
                                     + rectWidth (renderCell m dm hv i (int j)) / 2
                  \<and> hourLabelX l = Y_AXIS_WIDTH + of_nat j * (CELL_SIZE + CELL_PADDING) + CELL_SIZE / 2
                  \<and> labelAnchor l = AnchorMiddle
                  \<and> labelText l = toString (Some (int j)) @ '':00''"
    by (simp add: renderXLabels_nth hourLabelX_def columnStart_def xLabelsOrigin_def
        cellsOrigin_def renderCell_def Let_def)
qed

theorem hour_labels_centered_witness:
  "renderXLabels ! 4 = None
   \<and> map_option hourLabelX (renderXLabels ! 3) = Some 106
   \<and> columnStart 3 = 97
   \<and> map_option labelText (renderXLabels ! 21) = Some ''21:00''
   \<and> map_option labelAnchor (renderXLabels ! 21) = Some AnchorMiddle"
proof -
  have c: "columnStart 3 = 97"
    by (simp add: columnStart_def cellsOrigin_def CELL_SIZE_def CELL_PADDING_def Y_AXIS_WIDTH_def)
  have t: "toString (Some (int 21)) = ''21''" by code_simp
  note h = hour_labels_centered [of Map.empty "(0, 1)" None 0, THEN conjunct2, THEN spec]
  from h [of 4] have a: "renderXLabels ! 4 = None" by simp
  from h [of 3]
  have b: "\<exists>l. renderXLabels ! 3 = Some l \<and> hourLabelX l = columnStart (int 3) + CELL_SIZE / 2"
    by auto
  from h [of 21]
  have d: "\<exists>l. renderXLabels ! 21 = Some l \<and> labelAnchor l = AnchorMiddle
      \<and> labelText l = toString (Some (int 21)) @ '':00''"
    by auto
  from b c have "map_option hourLabelX (renderXLabels ! 3) = Some 106"
    by (auto simp: CELL_SIZE_def)
  moreover from d t have "map_option labelText (renderXLabels ! 21) = Some ''21:00''"
    "map_option labelAnchor (renderXLabels ! 21) = Some AnchorMiddle" by auto
  ultimately show ?thesis using a c by simp
qed

subsection \<open>The hover state\<close>

lemma rerendered_fields:
  "props (rerendered inst) = props inst" "hoveredCell (rerendered inst) = hoveredCell inst"
  by (simp_all add: rerendered_def)

lemma render_showing:
  assumes "props inst = Some (Payload (Some d))" "d \<noteq> []"
  shows "\<exists>ch. render inst = Heatmap ch \<and> cells ch = grid d (hoveredCell inst)
             \<and> tooltipBox ch = renderTooltip (hoveredCell inst)"
  using assms by (simp add: render_def ReviewRhythm_grid)

lemma grid_nth:
  "i < 7 \<Longrightarrow> j < 24 \<Longrightarrow>
     grid d hv ! i ! j =
       renderCell (processedDataMap (processData d)) (0, domainMax (processData d)) hv (int i) (int j)"
  by (simp add: grid_def renderCells_nth)

lemma grid_rect:
  assumes "i < 7" "j < 24"
  shows "rectDay (grid d hv ! i ! j) = int i" "rectHour (grid d hv ! i ! j) = int j"
    "rectCount (grid d hv ! i ! j) = countAt (entries d) (int i) (int j)"
  using assms grid_count [OF assms, of d hv]
  by (simp_all add: grid_nth renderCell_def Let_def countAt_def)

lemma rectAt_showing:
  assumes "props inst = Some (Payload (Some d))" "d \<noteq> []" "i < 7" "j < 24"
  shows "rectAt (render inst) i j = Some (grid d (hoveredCell inst) ! i ! j)"
proof -
  from render_showing [OF assms(1,2)] obtain ch
    where ch: "render inst = Heatmap ch" "cells ch = grid d (hoveredCell inst)" by blast
  have "length (grid d (hoveredCell inst)) = 7" "length (grid d (hoveredCell inst) ! i) = 24"
    using assms(3) by (simp_all add: grid_def renderCells_length renderCells_row)
  with ch assms(3,4) show ?thesis by (simp add: rectAt_def)
qed

lemma dispatch_enter:
  assumes "props inst = Some (Payload (Some d))" "d \<noteq> []" "i < 7" "j < 24"
  shows "dispatch inst (MouseEnter i j) =
     Some (rerendered (inst\<lparr>hoveredCell :=
        Some \<lparr>day = int i, hour = int j, count = countAt (entries d) (int i) (int j)\<rparr>\<rparr>))"
  by (simp add: rectAt_showing [OF assms] onMouseEnter_def grid_rect [OF assms(3,4)])

lemma dispatch_leave:
  assumes "props inst = Some (Payload (Some d))" "d \<noteq> []" "i < 7" "j < 24"
  shows "dispatch inst (MouseLeave i j) = Some (rerendered (inst\<lparr>hoveredCell := None\<rparr>))"
  by (simp add: rectAt_showing [OF assms] onMouseLeave_def)

lemma filter_key_length:
  "distinct (map f xs) \<Longrightarrow>
     length (filter (\<lambda>x. f x = k) xs) = (if k \<in> f ` set xs then 1 else 0)"
  by (induction xs) auto

lemma rectHovered_iff:
  "rectHovered (renderCell m dm hv a b) \<longleftrightarrow> (\<exists>hc. hv = Some hc \<and> day hc = a \<and> hour hc = b)"
  by (cases hv) (simp_all add: renderCell_def Let_def)

lemma grid_hovered_iff:
  assumes "r \<in> set (concat (grid d hv))"
  shows "rectHovered r \<longleftrightarrow> (\<exists>hc. hv = Some hc \<and> (rectDay r, rectHour r) = (day hc, hour hc))"
proof -
  from assms obtain a b where
    "r = renderCell (processedDataMap (processData d)) (0, domainMax (processData d)) hv a b"
    by (auto simp: grid_def renderCells_def)
  then have r: "rectHovered r \<longleftrightarrow> (\<exists>hc. hv = Some hc \<and> day hc = a \<and> hour hc = b)"
    and c: "rectDay r = a" "rectHour r = b"
    by (simp_all add: rectHovered_iff) (simp_all add: renderCell_def Let_def)
  show ?thesis unfolding r c by auto
qed

lemma hovered_filter:
  "filter rectHovered (concat (grid d hv)) =
     (case hv of
        None \<Rightarrow> []
      | Some hc \<Rightarrow> filter (\<lambda>r. (rectDay r, rectHour r) = (day hc, hour hc)) (concat (grid d hv)))"
proof (cases hv)
  case None
  then show ?thesis using grid_hovered_iff [of _ d hv] by (simp add: filter_empty_conv)
next
  case (Some hc)
  have "filter rectHovered (concat (grid d hv))
      = filter (\<lambda>r. (rectDay r, rectHour r) = (day hc, hour hc)) (concat (grid d hv))"
    by (rule filter_cong [OF refl]) (simp add: grid_hovered_iff Some)
  with Some show ?thesis by simp
qed

lemma grid_coords_distinct: "distinct (map (\<lambda>r. (rectDay r, rectHour r)) (concat (grid d hv)))"
  unfolding grid_def renderCells_coords by (rule grid_pairs_distinct)

lemma grid_coords_set:
  "(\<lambda>r. (rectDay r, rectHour r)) ` set (concat (grid d hv)) = int ` {..<7} \<times> int ` {..<24}"
proof -
  have "(\<lambda>r. (rectDay r, rectHour r)) ` set (concat (grid d hv))
      = set (map (\<lambda>r. (rectDay r, rectHour r)) (concat (grid d hv)))" by simp
  also have "\<dots> = set (List.product (map int [0..<7]) (map int [0..<24]))"
    unfolding grid_def renderCells_coords ..
  also have "\<dots> = int ` {..<7} \<times> int ` {..<24}" by (simp add: atLeast0LessThan)
  finally show ?thesis .
qed

lemma hovered_count:
  "length (filter rectHovered (concat (grid d hv))) =
     (case hv of
        None \<Rightarrow> 0
      | Some hc \<Rightarrow> if (day hc, hour hc) \<in> int ` {..<7} \<times> int ` {..<24} then 1 else 0)"
  unfolding hovered_filter
  by (cases hv) (simp_all only: option.case list.size filter_key_length [OF grid_coords_distinct]
      grid_coords_set)

lemma hovered_at_most_one: "length (hoveredRects (render inst)) \<le> 1"
proof (cases "\<exists>d. props inst = Some (Payload (Some d)) \<and> d \<noteq> []")
  case True
  then obtain d where d: "props inst = Some (Payload (Some d))" "d \<noteq> []" by blast
  from render_showing [OF d] obtain ch
    where ch: "render inst = Heatmap ch" "cells ch = grid d (hoveredCell inst)" by blast
  then have "hoveredRects (render inst) = filter rectHovered (concat (grid d (hoveredCell inst)))"
    by (simp add: hoveredRects_def)
  then show ?thesis
    by (simp only: hovered_count split: option.split) simp
next
  case False
  have "noData (props inst)"
  proof (cases "props inst")
    case None
    then show ?thesis by (simp add: noData_def)
  next
    case (Some q)
    obtain x where q: "q = Payload x" by (cases q)
    with False Some show ?thesis by (cases x) (auto simp: noData_def)
  qed
  then have "fst (ReviewRhythm (props inst) (hoveredCell inst) (domainState inst))
      = NotAvailable ''Review rhythm data is not available.''"
    by (auto simp: noData_def ReviewRhythm_def notAvailable_def split: option.splits)
  then show ?thesis by (simp add: hoveredRects_def render_def)
qed

lemma hovered_exactly:
  assumes "props inst = Some (Payload (Some d))" "d \<noteq> []"
    and "hoveredCell inst = Some hc" "day hc = int a" "hour hc = int b" "a < 7" "b < 24"
  shows "\<exists>r. hoveredRects (render inst) = [r] \<and> rectDay r = int a \<and> rectHour r = int b"
proof -
  from render_showing [OF assms(1,2)] obtain ch
    where ch: "render inst = Heatmap ch" "cells ch = grid d (hoveredCell inst)" by blast
  then have hr: "hoveredRects (render inst) = filter rectHovered (concat (grid d (Some hc)))"
    by (simp add: hoveredRects_def assms(3))
  have "(day hc, hour hc) \<in> int ` {..<7} \<times> int ` {..<24}"
    using assms(4-7) by simp
  then have "length (hoveredRects (render inst)) = 1"
    unfolding hr hovered_count by simp
  then obtain r where r: "hoveredRects (render inst) = [r]"
    by (cases "hoveredRects (render inst)") auto
  then have "r \<in> set (filter (\<lambda>r. (rectDay r, rectHour r) = (day hc, hour hc)) (concat (grid d (Some hc))))"
    unfolding hr hovered_filter by simp
  with assms(4,5) r show ?thesis by simp
qed

text \<open>
  Claim C6. While the grid of an input is shown, pointer-enter on the cell in row \<open>a\<close>,
  column \<open>b\<close> sets the hover state to that cell with the count it shows, pointer-leave
  sets it to none, and pointer-enter on a cell followed by pointer-enter on another
  leaves the hover state equal to the second cell alone, with exactly that one cell
  drawn as hovered. No view ever draws two cells as hovered.
\<close>

theorem hover_exclusive:
  assumes "props inst = Some (Payload (Some d))" and "d \<noteq> []"
    and "a < 7" and "b < 24" and "a' < 7" and "b' < 24"
  shows "(\<exists>inst'. dispatch inst (MouseEnter a b) = Some inst'
            \<and> hoveredCell inst' =
                Some \<lparr>day = int a, hour = int b, count = countAt (entries d) (int a) (int b)\<rparr>)
    \<and> (\<exists>inst'. dispatch inst (MouseLeave a b) = Some inst'
            \<and> hoveredCell inst' = None \<and> hoveredRects (render inst') = [])
    \<and> (\<exists>inst''. run inst [MouseEnter a b, MouseEnter a' b'] = Some inst''
            \<and> hoveredCell inst'' =
                Some \<lparr>day = int a', hour = int b', count = countAt (entries d) (int a') (int b')\<rparr>
            \<and> (\<exists>r. hoveredRects (render inst'') = [r] \<and> rectDay r = int a' \<and> rectHour r = int b'))
    \<and> length (hoveredRects (render other)) \<le> 1"
proof (intro conjI)
  let ?A = "\<lparr>day = int a, hour = int b, count = countAt (entries d) (int a) (int b)\<rparr>"
  let ?B = "\<lparr>day = int a', hour = int b', count = countAt (entries d) (int a') (int b')\<rparr>"
  let ?i1 = "rerendered (inst\<lparr>hoveredCell := Some ?A\<rparr>)"
  let ?i2 = "rerendered (?i1\<lparr>hoveredCell := Some ?B\<rparr>)"
  let ?i0 = "rerendered (inst\<lparr>hoveredCell := None\<rparr>)"
  have e1: "dispatch inst (MouseEnter a b) = Some ?i1"
    using assms(1-4) by (rule dispatch_enter)
  then show "\<exists>inst'. dispatch inst (MouseEnter a b) = Some inst' \<and> hoveredCell inst' = Some ?A"
    by (simp add: rerendered_fields)
  have p0: "props ?i0 = Some (Payload (Some d))" by (simp add: rerendered_fields assms(1))
  have "dispatch inst (MouseLeave a b) = Some ?i0"
    using assms(1-4) by (rule dispatch_leave)
  moreover have "hoveredRects (render ?i0) = []"
  proof -
    from render_showing [OF p0 assms(2)] obtain ch
      where "render ?i0 = Heatmap ch" "cells ch = grid d (hoveredCell ?i0)" by blast
    then show ?thesis by (simp add: hoveredRects_def rerendered_fields hovered_filter)
  qed
  ultimately show "\<exists>inst'. dispatch inst (MouseLeave a b) = Some inst'
      \<and> hoveredCell inst' = None \<and> hoveredRects (render inst') = []"
    by (simp add: rerendered_fields)
  have p1: "props ?i1 = Some (Payload (Some d))" by (simp add: rerendered_fields assms(1))
  have e2: "dispatch ?i1 (MouseEnter a' b') = Some ?i2"
    using p1 assms(2,5,6) by (rule dispatch_enter)
  have p2: "props ?i2 = Some (Payload (Some d))" by (simp add: rerendered_fields assms(1))
  have h2: "hoveredCell ?i2 = Some ?B" by (simp add: rerendered_fields)
  have "run inst [MouseEnter a b, MouseEnter a' b'] = Some ?i2"
    by (simp only: run.simps e1 e2 option.case)
  moreover have "\<exists>r. hoveredRects (render ?i2) = [r] \<and> rectDay r = int a' \<and> rectHour r = int b'"
    by (rule hovered_exactly [OF p2 assms(2) h2 _ _ assms(5,6)]) simp_all
  ultimately show "\<exists>inst''. run inst [MouseEnter a b, MouseEnter a' b'] = Some inst''
      \<and> hoveredCell inst'' = Some ?B
      \<and> (\<exists>r. hoveredRects (render inst'') = [r] \<and> rectDay r = int a' \<and> rectHour r = int b')"
    using h2 by blast
  show "length (hoveredRects (render other)) \<le> 1" by (rule hovered_at_most_one)
qed


lemma props_mount: "props (mount p dm) = p" "hoveredCell (mount p dm) = None"
  by (simp_all add: mount_def rerendered_fields)

theorem hover_exclusive_witness:
  "props (mount (Some (Payload (Some [(''1'', [(''9'', 5)])]))) (0, 1))
     = Some (Payload (Some [(''1'', [(''9'', 5)])]))
   \<and> map_option hoveredCell
        (dispatch (mount (Some (Payload (Some [(''1'', [(''9'', 5)])]))) (0, 1)) (MouseEnter 0 9))
       = Some (Some \<lparr>day = 0, hour = 9, count = 5\<rparr>)
   \<and> map_option hoveredCell
        (dispatch (mount (Some (Payload (Some [(''1'', [(''9'', 5)])]))) (0, 1)) (MouseLeave 0 9))
       = Some None
   \<and> map_option hoveredCell
        (run (mount (Some (Payload (Some [(''1'', [(''9'', 5)])]))) (0, 1))
           [MouseEnter 0 9, MouseEnter 3 14])
       = Some (Some \<lparr>day = 3, hour = 14, count = 0\<rparr>)"
proof -
  let ?d = "[(''1'', [(''9'', 5 :: int)])]"
  let ?inst = "mount (Some (Payload (Some ?d))) (0, 1)"
  have p: "props ?inst = Some (Payload (Some ?d))" by (rule props_mount)
  have ne: "?d \<noteq> []" by simp
  have c: "countAt (entries ?d) (int 0) (int 9) = 5" "countAt (entries ?d) (int 3) (int 14) = 0"
    by code_simp+
  from hover_exclusive [OF p ne, of 0 9 3 14 ?inst] p show ?thesis
    unfolding c by auto
qed

subsection \<open>The hover state on the page\<close>

lemma rhythmProps_reconcile: "rhythmProps (reconcile pg) = rhythmProps pg"
  by (simp add: reconcile_def rhythmProps_def split: option.splits)

lemma reconcile_consistent: "consistent (reconcile pg)"
  by (simp add: consistent_def rhythmProps_reconcile)
    (simp add: reconcile_def props_mount rerendered_fields split: option.splits)

lemma reconcile_hidden:
  "rhythmProps pg = None \<Longrightarrow> hoverState (reconcile pg) = None \<and> shownPayload (reconcile pg) = None"
  by (simp add: reconcile_def hoverState_def shownPayload_def split: option.splits)

lemma reconcile_mount:
  "rhythmProps pg = Some p \<Longrightarrow> widget pg = None \<Longrightarrow>
     hoverState (reconcile pg) = None \<and> shownPayload (reconcile pg) = Some p"
  by (simp add: reconcile_def hoverState_def shownPayload_def props_mount)

lemma reconcile_kept:
  "rhythmProps pg = Some p \<Longrightarrow> widget pg = Some inst \<Longrightarrow>
     hoverState (reconcile pg) = hoveredCell inst \<and> shownPayload (reconcile pg) = Some p"
  by (simp add: reconcile_def hoverState_def shownPayload_def rerendered_fields)

lemma consistent_hidden: "consistent pg \<Longrightarrow> rhythmProps pg = None \<Longrightarrow> widget pg = None"
  by (simp add: consistent_def)

lemma consistent_shown:
  "consistent pg \<Longrightarrow> widget pg = Some inst \<Longrightarrow> rhythmProps pg = Some p \<Longrightarrow> props inst = Some p"
  by (simp add: consistent_def)

declare dispatch.simps [simp del]

lemma dispatch_pointer_props:
  "dispatch inst (MouseEnter i j) = Some inst' \<Longrightarrow> props inst' = props inst"
  "dispatch inst (MouseLeave i j) = Some inst' \<Longrightarrow> props inst' = props inst"
  by (auto simp: dispatch.simps rerendered_fields split: option.splits)

lemma pageStep_pointer:
  "pageStep pg (CellEnter i j) = Some pg' \<Longrightarrow>
     \<exists>inst inst'. widget pg = Some inst \<and> dispatch inst (MouseEnter i j) = Some inst'
        \<and> pg' = pg\<lparr>widget := Some inst'\<rparr>"
  "pageStep pg (CellLeave i j) = Some pg' \<Longrightarrow>
     \<exists>inst inst'. widget pg = Some inst \<and> dispatch inst (MouseLeave i j) = Some inst'
        \<and> pg' = pg\<lparr>widget := Some inst'\<rparr>"
  by (auto split: option.splits)

lemma pageStep_reconciles:
  assumes "pageStep pg e = Some pg'" and "\<And>i j. e \<noteq> CellEnter i j" and "\<And>i j. e \<noteq> CellLeave i j"
  shows "\<exists>q. pg' = reconcile q \<and> widget q = widget pg
    \<and> (rhythmProps q = None \<or> rhythmProps pg = None \<or> rhythmProps q = rhythmProps pg)"
proof (cases e)
  case (SetUserId v)
  with assms(1) have "pg' = reconcile (pg\<lparr>userId := v\<rparr>)" by simp
  moreover have "rhythmProps (pg\<lparr>userId := v\<rparr>) = rhythmProps pg"
    by (simp add: rhythmProps_def split: option.splits)
  ultimately show ?thesis by (intro exI [of _ "pg\<lparr>userId := v\<rparr>"]) simp
next
  case Submit
  with assms(1) obtain q where "pg' = reconcile q" "widget q = widget pg" "profileData q = None"
    by (auto split: if_splits)
  then show ?thesis by (intro exI [of _ q]) (simp add: rhythmProps_def)
next
  case (FetchOk d)
  with assms(1) have "isLoading pg" "pg' = reconcile (pg\<lparr>profileData := d, isLoading := False\<rparr>)"
    by (auto split: if_splits)
  then show ?thesis
    by (intro exI [of _ "pg\<lparr>profileData := d, isLoading := False\<rparr>"])
      (simp add: rhythmProps_def split: option.splits)
next
  case (FetchFail msg)
  with assms(1) obtain q where "pg' = reconcile q" "widget q = widget pg" "profileData q = None"
    by (auto split: if_splits)
  then show ?thesis by (intro exI [of _ q]) (simp add: rhythmProps_def)
qed (use assms in auto)

lemma rhythmProps_widget: "rhythmProps (pg\<lparr>widget := w\<rparr>) = rhythmProps pg"
  by (simp add: rhythmProps_def split: option.splits)

lemma pageStep_consistent:
  assumes c: "consistent pg" and s: "pageStep pg e = Some pg'"
  shows "consistent pg'"
proof (cases "(\<exists>i j. e = CellEnter i j) \<or> (\<exists>i j. e = CellLeave i j)")
  case True
  with s obtain inst inst' where w: "widget pg = Some inst" and p: "props inst' = props inst"
    and pg': "pg' = pg\<lparr>widget := Some inst'\<rparr>"
    using pageStep_pointer dispatch_pointer_props by blast
  with c show ?thesis by (simp add: consistent_def rhythmProps_widget)
next
  case False
  with pageStep_reconciles [OF s] obtain q where "pg' = reconcile q" by blast
  then show ?thesis by (simp add: reconcile_consistent)
qed

lemma initial_consistent: "consistent initialPage"
  by (simp add: consistent_def initialPage_def rhythmProps_def)

lemma runPage_consistent:
  "consistent pg \<Longrightarrow> runPage pg es = Some pg' \<Longrightarrow> consistent pg'"
proof (induction es arbitrary: pg)
  case Nil
  then show ?case by simp
next
  case (Cons e es)
  from Cons.prems(2) obtain q where q: "pageStep pg e = Some q" "runPage q es = Some pg'"
    by (simp split: option.splits)
  from pageStep_consistent [OF Cons.prems(1) q(1)] q(2) show ?case by (rule Cons.IH)
qed


lemma consistent_payload:
  "consistent pg \<Longrightarrow> shownPayload pg = rhythmProps pg"
  "consistent pg \<Longrightarrow> rhythmProps pg = None \<Longrightarrow> hoverState pg = None"
  by (cases "widget pg"; cases "rhythmProps pg";
      simp add: consistent_def shownPayload_def hoverState_def)+

lemma reconcile_step:
  assumes c: "consistent pg" and w: "widget q = widget pg"
    and r: "rhythmProps q = None \<or> rhythmProps pg = None \<or> rhythmProps q = rhythmProps pg"
  shows "(shownPayload (reconcile q) = shownPayload pg \<and> hoverState (reconcile q) = hoverState pg)
    \<or> (shownPayload (reconcile q) \<noteq> shownPayload pg \<and> hoverState (reconcile q) = None)"
proof (cases "rhythmProps q")
  case None
  from reconcile_hidden [OF None] have h: "hoverState (reconcile q) = None"
    and p: "shownPayload (reconcile q) = None" by simp_all
  show ?thesis
  proof (cases "rhythmProps pg")
    case None
    with c h p show ?thesis by (simp add: consistent_payload)
  next
    case (Some p0)
    with c h p show ?thesis by (simp add: consistent_payload)
  qed
next
  case (Some p)
  show ?thesis
  proof (cases "widget pg")
    case None
    with w have "widget q = None" by simp
    from reconcile_mount [OF Some this] None show ?thesis
      by (simp add: shownPayload_def)
  next
    case (Some inst)
    with c have "rhythmProps pg \<noteq> None" using consistent_hidden by fastforce
    with r \<open>rhythmProps q = Some p\<close> have e: "rhythmProps pg = Some p" by auto
    from Some w have "widget q = Some inst" by simp
    from reconcile_kept [OF \<open>rhythmProps q = Some p\<close> this] e c Some show ?thesis
      by (simp add: consistent_payload hoverState_def)
  qed
qed

text \<open>
  Claim C7. In every state the page reaches, an event that changes the payload on the
  screen leaves the hover state none: the page clears the profile and unmounts the
  component when a fetch starts, so every fetched payload meets a newly mounted
  component, whose hover state is the initial \<open>null\<close>. The hover state changes only by a
  pointer-enter or a pointer-leave of a cell, or by this reset together with a change
  of the payload.
\<close>

theorem hover_reset_on_new_payload:
  assumes "runPage initialPage es = Some pg" and "pageStep pg e = Some pg'"
  shows "(shownPayload pg' \<noteq> shownPayload pg \<longrightarrow> hoverState pg' = None)
    \<and> (e = FetchOk d \<longrightarrow> hoverState pg' = None)
    \<and> (hoverState pg' \<noteq> hoverState pg \<longrightarrow>
          (\<exists>i j. e = CellEnter i j \<or> e = CellLeave i j)
          \<or> (shownPayload pg' \<noteq> shownPayload pg \<and> hoverState pg' = None))"
proof -
  from assms(1) have c: "consistent pg"
    using initial_consistent by (rule runPage_consistent [rotated])
  show ?thesis
  proof (cases "(\<exists>i j. e = CellEnter i j) \<or> (\<exists>i j. e = CellLeave i j)")
    case True
    with assms(2) obtain inst inst' where "widget pg = Some inst" "props inst' = props inst"
      "pg' = pg\<lparr>widget := Some inst'\<rparr>"
      using pageStep_pointer dispatch_pointer_props by blast
    then have "shownPayload pg' = shownPayload pg" by (simp add: shownPayload_def)
    with True show ?thesis by auto
  next
    case False
    with pageStep_reconciles [OF assms(2)] obtain q where q: "pg' = reconcile q"
      "widget q = widget pg"
      "rhythmProps q = None \<or> rhythmProps pg = None \<or> rhythmProps q = rhythmProps pg"
      by blast
    note st = reconcile_step [OF c q(2,3), folded q(1)]
    have "hoverState pg' = None" if "e = FetchOk d"
    proof -
      from that assms(2) have "isLoading pg" by (auto split: if_splits)
      then have "rhythmProps pg = None" by (simp add: rhythmProps_def split: option.splits)
      with c have "hoverState pg = None" by (simp add: consistent_payload)
      with st show ?thesis by auto
    qed
    with st show ?thesis by auto
  qed
qed

lemma runPage_snoc:
  "runPage pg (es @ [e]) = (case runPage pg es of None \<Rightarrow> None | Some q \<Rightarrow> pageStep q e)"
  by (induction es arbitrary: pg) (simp_all split: option.splits)

theorem hover_reset_on_new_payload_witness:
  "map_option hoverState
     (runPage initialPage
        [SetUserId ''u-1'', Submit,
         FetchOk (Some \<lparr>review_rhythm = Some (Payload (Some [(''1'', [(''9'', 5)])]))\<rparr>),
         CellEnter 0 9])
     = Some (Some \<lparr>day = 0, hour = 9, count = 5\<rparr>)
   \<and> map_option hoverState
     (runPage initialPage
        [SetUserId ''u-1'', Submit,
         FetchOk (Some \<lparr>review_rhythm = Some (Payload (Some [(''1'', [(''9'', 5)])]))\<rparr>),
         CellEnter 0 9, Submit])
     = Some None
   \<and> map_option shownPayload
     (runPage initialPage
        [SetUserId ''u-1'', Submit,
         FetchOk (Some \<lparr>review_rhythm = Some (Payload (Some [(''1'', [(''9'', 5)])]))\<rparr>),
         CellEnter 0 9, Submit,
         FetchOk (Some \<lparr>review_rhythm = Some (Payload (Some [(''1'', [(''9'', 7)])]))\<rparr>)])
     = Some (Some (Payload (Some [(''1'', [(''9'', 7)])])))
   \<and> map_option hoverState
     (runPage initialPage
        [SetUserId ''u-1'', Submit,
         FetchOk (Some \<lparr>review_rhythm = Some (Payload (Some [(''1'', [(''9'', 5)])]))\<rparr>),
         CellEnter 0 9, Submit,
         FetchOk (Some \<lparr>review_rhythm = Some (Payload (Some [(''1'', [(''9'', 7)])]))\<rparr>)])
     = Some None"
proof -
  let ?d = "[(''1'', [(''9'', 5 :: int)])]"
  let ?P5 = "Payload (Some ?d)"
  let ?P7 = "Payload (Some [(''1'', [(''9'', 7 :: int)])])"
  let ?es = "[SetUserId ''u-1'', Submit, FetchOk (Some \<lparr>review_rhythm = Some ?P5\<rparr>), CellEnter 0 9]"
  let ?f = "FetchOk (Some \<lparr>review_rhythm = Some ?P7\<rparr>)"
  have c: "countAt (entries ?d) (int 0) (int 9) = 5" by code_simp
  have pm: "props (mount (Some ?P5) (0, 1)) = Some (Payload (Some ?d))" by (rule props_mount)
  have ne: "?d \<noteq> []" by simp
  note en = dispatch_enter [OF pm ne, of 0 9, unfolded c]
  note u = isWhiteSpace_def
  have sims: "initialPage = \<lparr>userId = [], profileData = None, isLoading = False, error = None,
      widget = None, scaleAtRest = (0, 1)\<rparr>" by (rule initialPage_def)
  obtain p4 where r4: "runPage initialPage ?es = Some p4"
    and h4: "hoverState p4 = Some \<lparr>day = 0, hour = 9, count = 5\<rparr>"
    and s4: "shownPayload p4 = Some ?P5"
    by (simp add: sims u en reconcile_def rhythmProps_def hoverState_def shownPayload_def
        rerendered_fields props_mount)
  obtain p5 where r5: "runPage initialPage (?es @ [Submit]) = Some p5"
    and s5: "shownPayload p5 = None"
    by (simp add: sims u en reconcile_def rhythmProps_def shownPayload_def)
  obtain p6 where r6: "runPage initialPage ((?es @ [Submit]) @ [?f]) = Some p6"
    and s6: "shownPayload p6 = Some ?P7"
    by (simp add: sims u en reconcile_def rhythmProps_def shownPayload_def props_mount)
  from r4 r5 have s45: "pageStep p4 Submit = Some p5" by (simp only: runPage_snoc option.case)
  from r5 r6 have s56: "pageStep p5 ?f = Some p6" by (simp only: runPage_snoc option.case)
  from hover_reset_on_new_payload [OF r5 s56, of "Some \<lparr>review_rhythm = Some ?P7\<rparr>"]
  have h6: "hoverState p6 = None" by simp
  have "\<And>i j. Submit \<noteq> CellEnter i j \<and> Submit \<noteq> CellLeave i j" by simp
  with hover_reset_on_new_payload [OF r4 s45, of None] h4 s4 s5
  have h5: "hoverState p5 = None" by auto
  from r4 h4 r5 h5 r6 s6 h6 show ?thesis by simp
qed

subsection \<open>Entries out of range\<close>

lemma map_of_filter_key:
  "P k \<Longrightarrow> map_of (filter (\<lambda>e. P (fst e)) xs) k = map_of xs k"
  by (induction xs) auto

lemma countAt_inRange:
  assumes "0 \<le> i" "i \<le> 6" "0 \<le> j" "j \<le> 23"
  shows "countAt (filter (\<lambda>e. inRange (fst e)) es) i j = countAt es i j"
proof -
  have "inRange (Some (i + 1), Some j)" using assms by (simp add: inRange_def)
  then have "map_of (filter (\<lambda>e. inRange (fst e)) (rev es)) (Some (i + 1), Some j)
      = map_of (rev es) (Some (i + 1), Some j)"
    by (rule map_of_filter_key)
  then show ?thesis by (simp add: countAt_def rev_filter)
qed

lemma grid_count_inRange:
  assumes "i < 7" "j < 24"
  shows "rectCount (grid d hv ! i ! j) = countAt (inRangeEntries d) (int i) (int j)"
  using assms by (simp add: grid_rect inRangeEntries_def countAt_inRange)

lemma shownCounts_inRange:
  "shownCounts d =
     map (\<lambda>i. map (\<lambda>j. countAt (inRangeEntries d) (int i) (int j)) [0..<24]) [0..<7]"
proof -
  have "shownCounts d
      = map (\<lambda>i. map (\<lambda>j. rectCount (renderCell (processedDataMap (processData d))
            (0, domainMax (processData d)) None (int i) (int j))) [0..<24]) [0..<7]"
    by (simp add: shownCounts_def grid_def renderCells_def length_daysOfWeek hoursOfDay_def comp_def)
  also have "\<dots> = map (\<lambda>i. map (\<lambda>j. countAt (inRangeEntries d) (int i) (int j)) [0..<24]) [0..<7]"
  proof (intro map_cong refl)
    fix i j :: nat
    assume "i \<in> set [0..<7]" "j \<in> set [0..<24]"
    then have ij: "i < 7" "j < 24" by simp_all
    from grid_count_inRange [OF ij, of d None] show
      "rectCount (renderCell (processedDataMap (processData d)) (0, domainMax (processData d))
          None (int i) (int j)) = countAt (inRangeEntries d) (int i) (int j)"
      by (simp add: grid_nth [OF ij])
  qed
  finally show ?thesis .
qed

lemma entries_append: "entries (d1 @ d2) = entries d1 @ entries d2"
  by (simp add: entries_def)

lemma entries_Cons: "entries ((dayStr, hs) # d) = dayEntries (parseInt dayStr) hs @ entries d"
  by (simp add: entries_def)

lemma dayEntries_splice:
  "dayEntries dy ((hourStr, c) # hs) = ((dy, parseInt hourStr), c) # dayEntries dy hs"
  "dayEntries dy (hs1 @ hs2) = dayEntries dy hs1 @ dayEntries dy hs2"
  by (simp_all add: dayEntries_def)

text \<open>
  Claim C5, as the specification states it, fails: the input \<open>{"8": {"0": 5}}\<close> has a
  day key that parses to 8 and the input \<open>{"1": {"24": 5}}\<close> an hour key that parses to
  24; for both the loops end with a state whose largest count is 5, not with a failure.
\<close>

theorem binning_failure_counterexample:
  "hasInvalidDay [(''8'', [(''0'', 5)])]
   \<and> binning [(''8'', [(''0'', 5)])] \<noteq> Inl InvalidDayKind
   \<and> maxValue (processData [(''8'', [(''0'', 5)])]) = 5
   \<and> hasInvalidHour [(''1'', [(''24'', 5)])]
   \<and> binning [(''1'', [(''24'', 5)])] \<noteq> Inl InvalidHourKind
   \<and> maxValue (processData [(''1'', [(''24'', 5)])]) = 5"
proof -
  have "hasInvalidDay [(''8'', [(''0'', 5)])]" "hasInvalidHour [(''1'', [(''24'', 5)])]"
    by code_simp+
  moreover have "allCounts [(''8'', [(''0'', 5)])] = [5]" "allCounts [(''1'', [(''24'', 5)])] = [5]"
    by (simp_all add: allCounts_def entries_def dayEntries_def)
  ultimately show ?thesis by (simp add: binning_def processData_max)
qed

text \<open>
  Claim C5, amended. Binning never fails, the source does not validate keys: for every
  input, also one with a day key that parses outside \<open>[1,7]\<close> or an hour key that parses
  outside \<open>[0,23]\<close>, the loops end with a state, and the cell in row \<open>i\<close>, column \<open>j\<close> of
  the grid shows the count of the last entry in range for day \<open>i + 1\<close> and hour \<open>j\<close> (0
  when there is none), as if the entries out of range had been skipped; a non-empty
  input is rendered as this grid.
\<close>

theorem binning_never_fails:
  "binning d = Inr (processData d)
   \<and> binning d \<noteq> Inl InvalidDayKind \<and> binning d \<noteq> Inl InvalidHourKind
   \<and> (\<forall>i<7. \<forall>j<24. rectCount (grid d hv ! i ! j) = countAt (inRangeEntries d) (int i) (int j))
   \<and> (d \<noteq> [] \<longrightarrow>
        (\<exists>ch. fst (ReviewRhythm (Some (Payload (Some d))) hv dm) = Heatmap ch
              \<and> cells ch = grid d hv))"
  by (simp add: binning_def grid_count_inRange ReviewRhythm_grid)

theorem binning_never_fails_witness:
  "hasInvalidDay [(''1'', [(''9'', 3)]), (''8'', [(''0'', 5)])]
   \<and> binning [(''1'', [(''9'', 3)]), (''8'', [(''0'', 5)])]
       = Inr (processData [(''1'', [(''9'', 3)]), (''8'', [(''0'', 5)])])
   \<and> rectCount (grid [(''1'', [(''9'', 3)]), (''8'', [(''0'', 5)])] None ! 0 ! 9) = 3
   \<and> rectCount (grid [(''1'', [(''9'', 3)]), (''8'', [(''0'', 5)])] None ! 0 ! 0) = 0
   \<and> (\<exists>ch. fst (ReviewRhythm (Some (Payload (Some [(''1'', [(''9'', 3)]), (''8'', [(''0'', 5)])]))) None (0, 1))
            = Heatmap ch
          \<and> cells ch = grid [(''1'', [(''9'', 3)]), (''8'', [(''0'', 5)])] None)"
proof -
  let ?d = "[(''1'', [(''9'', 3 :: int)]), (''8'', [(''0'', 5)])]"
  have i: "hasInvalidDay ?d" by code_simp
  have c: "countAt (inRangeEntries ?d) (int 0) (int 9) = 3"
    "countAt (inRangeEntries ?d) (int 0) (int 0) = 0"
    by code_simp+
  note t = binning_never_fails [of ?d None "(0, 1)"]
  from t have g: "\<forall>i<7. \<forall>j<24. rectCount (grid ?d None ! i ! j) = countAt (inRangeEntries ?d) (int i) (int j)"
    by blast
  from g [THEN spec, of 0, THEN mp, THEN spec, of 9] g [THEN spec, of 0, THEN mp, THEN spec, of 0] c
  have "rectCount (grid ?d None ! 0 ! 9) = 3" "rectCount (grid ?d None ! 0 ! 0) = 0" by simp_all
  with i t show ?thesis by simp
qed

text \<open>
  Claim C10, as stated, fails: in \<open>{"1": {"0": 2}, "8": {"0": 5}, "9": {"0": 10}}\<close> the
  entry under day key 8 is out of range and its count 5 exceeds the only count in
  range, 2, but the upper end of the colour domain is 10, not 5.
\<close>

theorem invisible_entry_counterexample:
  "\<not> dayInRange ''8''
   \<and> inRangeCounts [(''1'', [(''0'', 2)]), (''8'', [(''0'', 5)]), (''9'', [(''0'', 10)])] = [2]
   \<and> domainMax (processData [(''1'', [(''0'', 2)]), (''8'', [(''0'', 5)]), (''9'', [(''0'', 10)])]) = 10
   \<and> domainMax (processData [(''1'', [(''0'', 2)]), (''8'', [(''0'', 5)]), (''9'', [(''0'', 10)])]) \<noteq> 5"
proof -
  let ?d = "[(''1'', [(''0'', 2 :: int)]), (''8'', [(''0'', 5)]), (''9'', [(''0'', 10)])]"
  have "\<not> dayInRange ''8''" "inRangeCounts ?d = [2]" by code_simp+
  moreover have "allCounts ?d = [2, 5, 10]"
    by (simp add: allCounts_def entries_def dayEntries_def)
  then have "domainMax (processData ?d) = 10" by (simp add: domainMax_Max)
  ultimately show ?thesis by simp
qed

text \<open>
  Claim C10, amended. For every input with an entry whose day key parses outside
  \<open>[1,7]\<close> or whose hour key parses outside \<open>[0,23]\<close>, with count \<open>c\<close>: the counts the grid
  shows are those of the input without that entry, so no cell carries \<open>c\<close> from it; the
  upper end of the colour domain is at least \<open>c\<close>; and it equals \<open>c\<close> when \<open>c\<close> is at
  least 1 and at least every count of the input, in range or not.
\<close>

theorem invisible_entry_stretches_domain:
  assumes "\<not> inRange (parseInt dayStr, parseInt hourStr)"
    and "d = d1 @ (dayStr, hs1 @ (hourStr, c) # hs2) # d2"
  shows "shownCounts d = shownCounts (d1 @ (dayStr, hs1 @ hs2) # d2)
    \<and> c \<le> domainMax (processData d)
    \<and> (1 \<le> c \<and> (\<forall>c' \<in> set (allCounts d). c' \<le> c) \<longrightarrow> domainMax (processData d) = c)"
proof (intro conjI impI)
  have "inRangeEntries d = inRangeEntries (d1 @ (dayStr, hs1 @ hs2) # d2)"
    using assms(1)
    by (simp add: assms(2) inRangeEntries_def entries_append entries_Cons dayEntries_splice)
  then show "shownCounts d = shownCounts (d1 @ (dayStr, hs1 @ hs2) # d2)"
    by (simp add: shownCounts_inRange)
  have mem: "c \<in> set (allCounts d)"
    by (simp add: assms(2) allCounts_def entries_append entries_Cons dayEntries_splice)
  then show "c \<le> domainMax (processData d)"
    by (simp add: domainMax_Max Max_ge_iff)
  assume a: "1 \<le> c \<and> (\<forall>c' \<in> set (allCounts d). c' \<le> c)"
  have "Max (insert 1 (set (allCounts d))) = c"
  proof (rule Max_eqI)
    show "finite (insert 1 (set (allCounts d)))" by simp
    show "c \<in> insert 1 (set (allCounts d))" using mem by simp
    fix y assume "y \<in> insert 1 (set (allCounts d))"
    with a show "y \<le> c" by auto
  qed
  then show "domainMax (processData d) = c" by (simp add: domainMax_Max)
qed

theorem invisible_entry_stretches_domain_witness:
  "\<not> inRange (parseInt ''8'', parseInt ''0'')
   \<and> shownCounts [(''1'', [(''0'', 2)]), (''8'', [(''0'', 10)])]
       = shownCounts [(''1'', [(''0'', 2)]), (''8'', [])]
   \<and> domainMax (processData [(''1'', [(''0'', 2)]), (''8'', [(''0'', 10)])]) = 10
   \<and> domainMax (processData [(''1'', [(''0'', 2)]), (''8'', [])]) = 2
   \<and> colorScale (0, 10) 2 \<noteq> colorScale (0, 2) 2"
proof -
  let ?d = "[(''1'', [(''0'', 2 :: int)]), (''8'', [(''0'', 10)])]"
  have r: "\<not> inRange (parseInt ''8'', parseInt ''0'')" by code_simp
  have d: "?d = [(''1'', [(''0'', 2)])] @ (''8'', [] @ (''0'', 10) # []) # []" by simp
  have a: "allCounts ?d = [2, 10]" "allCounts [(''1'', [(''0'', 2)]), (''8'', [])] = [2]"
    by (simp_all add: allCounts_def entries_def dayEntries_def)
  have f: "colorScale (0, 10) 2 \<noteq> colorScale (0, 2) 2"
    by (simp add: colorScale_def ColorScale_def colorRange_def interpolationFraction_def)
  from invisible_entry_stretches_domain [OF r d] a r f show ?thesis
    by (simp add: domainMax_Max)
qed

end
